theory Spec2Isabelle
  imports Complex_Main "HOL-Library.AList"
begin

section \<open>Numbers, instants and errors\<close>

text \<open>
  A JavaScript number is modelled as an exact real extended by \<open>Infinity\<close>, the one
  non-finite value the code itself introduces (the default of an absent directive).
  \<open>NaN\<close>, \<open>-Infinity\<close> and the rounding of floating point are outside the model.
  A \<open>Date\<close> is its \<open>valueOf()\<close>: a whole number of milliseconds; invalid dates are
  outside the model.
\<close>

datatype jsnum = Num real | Infinity

instantiation jsnum :: linorder
begin

fun less_eq_jsnum :: "jsnum \<Rightarrow> jsnum \<Rightarrow> bool" where
  "less_eq_jsnum (Num a) (Num b) = (a \<le> b)"
| "less_eq_jsnum Infinity (Num b) = False"
| "less_eq_jsnum x Infinity = True"

definition less_jsnum :: "jsnum \<Rightarrow> jsnum \<Rightarrow> bool" where
  "less_jsnum x y = (x \<le> y \<and> \<not> y \<le> x)"

instance
proof
  fix x y z :: jsnum
  show "(x < y) = (x \<le> y \<and> \<not> y \<le> x)" by (simp add: less_jsnum_def)
  show "x \<le> x" by (cases x) simp_all
  show "x \<le> y \<Longrightarrow> y \<le> z \<Longrightarrow> x \<le> z" by (cases x; cases y; cases z) simp_all
  show "x \<le> y \<Longrightarrow> y \<le> x \<Longrightarrow> x = y" by (cases x; cases y) simp_all
  show "x \<le> y \<or> y \<le> x" by (cases x; cases y) auto
qed

end

text \<open>\<open>a + b\<close> and \<open>a - b\<close> for a finite \<open>b\<close>, as IEEE arithmetic has them on these values.\<close>

fun num_add :: "jsnum \<Rightarrow> jsnum \<Rightarrow> jsnum" where
  "num_add (Num a) (Num b) = Num (a + b)"
| "num_add x y = Infinity"

fun num_sub :: "jsnum \<Rightarrow> real \<Rightarrow> jsnum" where
  "num_sub (Num a) b = Num (a - b)"
| "num_sub Infinity b = Infinity"

text \<open>\<open>new Date(t)\<close> drops the fraction of \<open>t\<close>, rounding towards zero.\<close>

definition newDate :: "real \<Rightarrow> int" where
  "newDate t = (if t < 0 then \<lceil>t\<rceil> else \<lfloor>t\<rfloor>)"

datatype error = ClosedError | TypeError | StoreError string | ProducerError string

section \<open>Directives, resources and entries\<close>

record max_stale =
  withoutRevalidation :: jsnum
  whileRevalidate :: jsnum
  ifError :: jsnum

record consumer_max_stale = max_stale +
  c_freshUntilAge :: "jsnum option"

record producer_directives =
  freshUntilAge :: jsnum
  maxStale :: "max_stale option"
  storeFor :: "jsnum option"

record consumer_directives =
  maxAge :: "jsnum option"
  c_maxStale :: "consumer_max_stale option"

datatype param_value = StrV string | NumV real | BoolV bool

text \<open>
  A params object lists its own keys; \<open>None\<close> is a key whose value is \<open>undefined\<close>.
  A vary object may also hold an explicit \<open>null\<close>.
\<close>

type_synonym params = "(string \<times> param_value option) list"

datatype vary_value = Null | Val param_value

type_synonym vary = "(string \<times> vary_value option) list"

type_synonym normalized_params = "(string \<times> param_value) list"

type_synonym normalized_vary = "(string \<times> vary_value) list"

text \<open>\<open>ProducerResultResource\<close>: what a producer hands over, optional fields as options.\<close>

record resource =
  r_id :: string
  r_vary :: "vary option"
  r_content :: string
  r_initialAge :: "real option"
  r_date :: "int option"
  r_directives :: producer_directives
  r_validators :: "(string \<times> string) list option"

text \<open>
  \<open>NormalizedProducerResultResource\<close>, which is also \<open>Entry\<close>. The initial age is finite: an
  infinite one would make the birth date an invalid date.
\<close>

record entry =
  entry_id :: string
  vary :: normalized_vary
  content :: string
  initialAge :: real
  date :: int
  directives :: producer_directives
  validators :: "(string \<times> string) list"

section \<open>Normalization (utils/normalization.ts)\<close>

definition normalizeProducerMaxStale :: "max_stale \<Rightarrow> max_stale" where
  "normalizeProducerMaxStale ms =
     (let wr = max (Num 0) (withoutRevalidation ms);
          wrv = max wr (whileRevalidate ms);
          ie = max wrv (ifError ms)
      in \<lparr>withoutRevalidation = wr, whileRevalidate = wrv, ifError = ie\<rparr>)"

definition normalizeConsumerMaxStale :: "consumer_max_stale \<Rightarrow> consumer_max_stale" where
  "normalizeConsumerMaxStale ms =
     (let wr = max (Num 0) (withoutRevalidation ms);
          wrv = max wr (whileRevalidate ms);
          ie = max wrv (ifError ms)
      in \<lparr>withoutRevalidation = wr, whileRevalidate = wrv, ifError = ie,
          c_freshUntilAge =
            (case c_freshUntilAge ms of Some f \<Rightarrow> Some (max (Num 0) f) | None \<Rightarrow> None)\<rparr>)"

definition normalizeProducerDirectives :: "producer_directives \<Rightarrow> producer_directives" where
  "normalizeProducerDirectives ds =
     \<lparr>freshUntilAge = max (freshUntilAge ds) (Num 0),
      maxStale = (case maxStale ds of Some ms \<Rightarrow> Some (normalizeProducerMaxStale ms)
                  | None \<Rightarrow> None),
      storeFor = storeFor ds\<rparr>"

text \<open>
  \<open>Object.fromEntries\<close>: an object is the list of its keys and values in insertion order;
  of two entries with one key the later value wins, at the place of the earlier.
\<close>

definition fromEntries :: "(string \<times> 'a) list \<Rightarrow> (string \<times> 'a) list" where
  "fromEntries es = foldl (\<lambda>obj (k, v). AList.update k v obj) [] es"

definition normalizeParams ::
  "(string \<Rightarrow> string) \<Rightarrow> (string \<Rightarrow> param_value \<Rightarrow> param_value) \<Rightarrow> params
    \<Rightarrow> normalized_params" where
  "normalizeParams normalizeParamName normalizeParamValue ps =
     fromEntries
       (concat (map (\<lambda>(k, v). case v of None \<Rightarrow> []
                      | Some w \<Rightarrow> (let finalName = normalizeParamName k
                                   in [(finalName, normalizeParamValue finalName w)]))
                ps))"

definition normalizeVary ::
  "(string \<Rightarrow> string) \<Rightarrow> (string \<Rightarrow> param_value \<Rightarrow> param_value) \<Rightarrow> vary
    \<Rightarrow> normalized_vary" where
  "normalizeVary normalizeParamName normalizeParamValue vs =
     fromEntries
       (concat (map (\<lambda>(k, v). case v of None \<Rightarrow> []
                      | Some w \<Rightarrow> (let finalName = normalizeParamName k
                                   in [(finalName,
                                        case w of Null \<Rightarrow> Null
                                        | Val x \<Rightarrow> Val (normalizeParamValue finalName x))]))
                vs))"

text \<open>
  \<open>normalizeProducerResultResource\<close>; \<open>now\<close> is what \<open>new Date()\<close> returns when neither
  the resource nor the caller gives a date.
\<close>

definition normalizeProducerResultResource ::
  "(vary \<Rightarrow> normalized_vary) \<Rightarrow> resource \<Rightarrow> int option \<Rightarrow> int \<Rightarrow> entry" where
  "normalizeProducerResultResource normVary r fallbackProducedAt now =
     \<lparr>entry_id = r_id r,
      vary = normVary (case r_vary r of Some v \<Rightarrow> v | None \<Rightarrow> []),
      content = r_content r,
      initialAge = max (case r_initialAge r of Some a \<Rightarrow> a | None \<Rightarrow> 0) 0,
      date = (case r_date r of Some d \<Rightarrow> d
              | None \<Rightarrow> (case fallbackProducedAt of Some d \<Rightarrow> d | None \<Rightarrow> now)),
      directives = normalizeProducerDirectives (r_directives r),
      validators = (case r_validators r of Some v \<Rightarrow> v | None \<Rightarrow> [])\<rparr>"

section \<open>Entry helpers and the classifier\<close>

definition birthDate :: "entry \<Rightarrow> int" where
  "birthDate it = newDate (real_of_int (date it) - initialAge it * 1000)"

definition age :: "entry \<Rightarrow> int \<Rightarrow> real" where
  "age it atDate = real_of_int (atDate - birthDate it) / 1000"

definition isValidatable :: "entry \<Rightarrow> bool" where
  "isValidatable it = (length (map fst (validators it)) > 0)"

definition potentiallyUsefulFor :: "entry \<Rightarrow> int \<Rightarrow> jsnum" where
  "potentiallyUsefulFor it atDate =
     (case maxStale (directives it) of
        Some ms \<Rightarrow>
          if \<not> isValidatable it
          then num_sub (num_add (freshUntilAge (directives it)) (ifError ms)) (age it atDate)
          else Infinity
      | None \<Rightarrow> Infinity)"

definition isFresh :: "entry \<Rightarrow> int \<Rightarrow> bool" where
  "isFresh it atDate =
     (let ageAt = age it atDate in ageAt \<ge> 0 \<and> Num ageAt \<le> freshUntilAge (directives it))"

datatype EntryClassification = Usable | UsableWhileRevalidate | UsableIfError | Unusable

definition finalProducerMaxStale :: "producer_directives \<Rightarrow> max_stale" where
  "finalProducerMaxStale producerDirs =
     (case maxStale producerDirs of
        Some ms \<Rightarrow> ms
      | None \<Rightarrow> \<lparr>withoutRevalidation = Infinity, whileRevalidate = Infinity,
                 ifError = Infinity\<rparr>)"

definition finalConsumerMaxStale ::
  "producer_directives \<Rightarrow> consumer_max_stale option \<Rightarrow> max_stale" where
  "finalConsumerMaxStale producerDirs givenConsumerMaxStaleNormalized =
     (case givenConsumerMaxStaleNormalized of
        Some g \<Rightarrow> max_stale.truncate g
      | None \<Rightarrow>
          (case maxStale producerDirs of
             None \<Rightarrow> \<lparr>withoutRevalidation = Num 0, whileRevalidate = Num 0, ifError = Num 0\<rparr>
           | Some ms \<Rightarrow> \<lparr>withoutRevalidation = Num 0, whileRevalidate = whileRevalidate ms,
                         ifError = ifError ms\<rparr>))"

definition effectiveFreshUntilAge ::
  "producer_directives \<Rightarrow> consumer_max_stale option \<Rightarrow> jsnum" where
  "effectiveFreshUntilAge producerDirs givenConsumerMaxStaleNormalized =
     min (case givenConsumerMaxStaleNormalized of
            Some g \<Rightarrow> (case c_freshUntilAge g of Some f \<Rightarrow> f | None \<Rightarrow> Infinity)
          | None \<Rightarrow> Infinity)
         (freshUntilAge producerDirs)"

text \<open>
  \<open>classify\<close>. The age is finite, so \<open>ageAtDate <= effectiveFreshUntilAge\<close> holds whenever
  the effective freshness lifetime is \<open>Infinity\<close>; the staleness is only ever computed
  from a finite lifetime.
\<close>

definition classify :: "entry \<Rightarrow> consumer_directives \<Rightarrow> int \<Rightarrow> EntryClassification" where
  "classify entry consumerDirs atDate =
     (let producerDirs = directives entry;
          ageAtDate = age entry atDate
      in if (case maxAge consumerDirs of Some m \<Rightarrow> Num ageAtDate > m | None \<Rightarrow> False)
         then Unusable
         else
           let givenConsumerMaxStaleNormalized =
                 (case c_maxStale consumerDirs of
                    Some ms \<Rightarrow> Some (normalizeConsumerMaxStale ms) | None \<Rightarrow> None)
           in case effectiveFreshUntilAge producerDirs givenConsumerMaxStaleNormalized of
                Infinity \<Rightarrow> Usable
              | Num f \<Rightarrow>
                  if ageAtDate \<le> f then Usable
                  else if maxStale producerDirs = None
                          \<and> givenConsumerMaxStaleNormalized = None
                  then Unusable
                  else
                    let fp = finalProducerMaxStale producerDirs;
                        fc = finalConsumerMaxStale producerDirs
                               givenConsumerMaxStaleNormalized;
                        staleness = Num (ageAtDate - f)
                    in if staleness \<le> min (withoutRevalidation fc) (withoutRevalidation fp)
                       then Usable
                       else if staleness \<le> min (whileRevalidate fc) (whileRevalidate fp)
                       then UsableWhileRevalidate
                       else if staleness \<le> min (ifError fc) (ifError fp)
                       then UsableIfError
                       else Unusable)"

section \<open>The cache (Cache.ts)\<close>

record consumer_request =
  req_id :: string
  req_params :: params
  req_directives :: consumer_directives

record CacheLookupResult =
  usable :: "entry option"
  usableWhileRevalidate :: "entry option"
  usableIfError :: "entry option"
  validatable :: "entry list"

text \<open>The backing store is an external collaborator: its reads and writes may fail.\<close>

record store =
  store_get :: "string \<Rightarrow> normalized_params \<Rightarrow> error + entry list"
  store_getMany :: "(string \<times> normalized_params) list \<Rightarrow> error + entry list list"
  store_store :: "(entry \<times> jsnum) list \<Rightarrow> error + unit"

datatype OnRequestAfterClose = Throw | ReturnNothing

record cache =
  dataStore :: store
  closed :: bool
  onGetAfterClose :: OnRequestAfterClose
  onStoreAfterClose :: OnRequestAfterClose
  normalizeParamName :: "string \<Rightarrow> string"
  normalizeParamValue :: "string \<Rightarrow> param_value \<Rightarrow> param_value"

text \<open>
  What a cache operation does besides returning: the calls it makes to the store and the
  \<open>"store"\<close> events it emits, in order. Logging is left out.
\<close>

datatype effect =
    CallStoreGet string normalized_params
  | CallStoreGetMany "(string \<times> normalized_params) list"
  | CallStoreStore "(entry \<times> jsnum) list"
  | EmitStore entry jsnum

text \<open>
  \<open>groupBy\<close> of es-toolkit: an object from each key to the items with that key, in input
  order; a key with no item is absent.
\<close>

definition groupBy :: "'a list \<Rightarrow> ('a \<Rightarrow> 'k) \<Rightarrow> ('k \<rightharpoonup> 'a list)" where
  "groupBy arr getKeyFromItem =
     foldl (\<lambda>result item.
              let key = getKeyFromItem item
              in result(key \<mapsto> (case result key of None \<Rightarrow> [] | Some g \<Rightarrow> g) @ [item]))
           Map.empty arr"

text \<open>
  \<open>bestEntry\<close>: \<open>sortBy\<close> of es-toolkit sorts a copy with the stable \<open>Array.prototype.sort\<close>,
  ascending in the key; \<open>.at(-1)\<close> is the last element, \<open>undefined\<close> on an empty array.
\<close>

definition bestEntry :: "entry list \<Rightarrow> entry option" where
  "bestEntry suitableEntries =
     (let sorted = sort_key birthDate suitableEntries
      in if sorted = [] then None else Some (last sorted))"

definition processCacheEntries ::
  "entry list \<Rightarrow> consumer_directives \<Rightarrow> int \<Rightarrow> CacheLookupResult" where
  "processCacheEntries entries dirs now =
     (let classifiedEntries = groupBy entries (\<lambda>it. classify it dirs now)
      in case classifiedEntries Usable of
           Some usableEntries \<Rightarrow>
             \<lparr>usable = bestEntry usableEntries, usableWhileRevalidate = None,
              usableIfError = None, validatable = []\<rparr>
         | None \<Rightarrow>
             (let validatableEntries = filter isValidatable entries
              in (case classifiedEntries UsableWhileRevalidate of
                    Some usableWhileRevalidateEntries \<Rightarrow>
                      \<lparr>usable = None,
                       usableWhileRevalidate = bestEntry usableWhileRevalidateEntries,
                       usableIfError = None, validatable = validatableEntries\<rparr>
                  | None \<Rightarrow>
                      \<lparr>usable = None, usableWhileRevalidate = None,
                       usableIfError =
                         (case classifiedEntries UsableIfError of
                            Some usableIfErrorEntries \<Rightarrow> bestEntry usableIfErrorEntries
                          | None \<Rightarrow> None),
                       validatable = validatableEntries\<rparr>)))"

definition noEntries :: CacheLookupResult where
  "noEntries = \<lparr>usable = None, usableWhileRevalidate = None, usableIfError = None,
                validatable = []\<rparr>"

definition Cache_get ::
  "cache \<Rightarrow> int \<Rightarrow> consumer_request \<Rightarrow> effect list \<times> (error + CacheLookupResult)" where
  "Cache_get c now req =
     (if closed c then
        (if onGetAfterClose c = Throw then ([], Inl ClosedError) else ([], Inr noEntries))
      else
        let normalizedParams =
              normalizeParams (normalizeParamName c) (normalizeParamValue c) (req_params req)
        in ([CallStoreGet (req_id req) normalizedParams],
            case store_get (dataStore c) (req_id req) normalizedParams of
              Inl e \<Rightarrow> Inl e
            | Inr cacheEntries \<Rightarrow>
                Inr (processCacheEntries cacheEntries (req_directives req) now)))"

text \<open>
  \<open>getMany\<close>. Reading \<open>cacheEntriesForRequests[i]\<close> beyond the end of what the store returned
  gives \<open>undefined\<close>, on which \<open>groupBy\<close> throws a TypeError.
\<close>

definition Cache_getMany ::
  "cache \<Rightarrow> int \<Rightarrow> consumer_request list \<Rightarrow> effect list \<times> (error + CacheLookupResult list)"
  where
  "Cache_getMany c now requests =
     (if length requests = 0 then ([], Inr [])
      else if closed c then
        (if onGetAfterClose c = Throw then ([], Inl ClosedError)
         else ([], Inr (map (\<lambda>_. noEntries) requests)))
      else
        let storeRequests =
              map (\<lambda>req. (req_id req,
                           normalizeParams (normalizeParamName c) (normalizeParamValue c)
                             (req_params req)))
                  requests
        in ([CallStoreGetMany storeRequests],
            case store_getMany (dataStore c) storeRequests of
              Inl e \<Rightarrow> Inl e
            | Inr cacheEntriesForRequests \<Rightarrow>
                if length cacheEntriesForRequests < length requests then Inl TypeError
                else Inr (map (\<lambda>(req, i).
                                 processCacheEntries (cacheEntriesForRequests ! i)
                                   (req_directives req) now)
                              (zip requests [0..<length requests]))))"

definition calculateStoreFor :: "entry \<Rightarrow> int \<Rightarrow> jsnum" where
  "calculateStoreFor entry atDate =
     (let requestedStoreFor =
            (case storeFor (directives entry) of
               Some producerStoreFor \<Rightarrow> num_sub producerStoreFor (initialAge entry)
             | None \<Rightarrow> Infinity)
      in max (Num 0) (min requestedStoreFor (potentiallyUsefulFor entry atDate)))"

definition Cache_store :: "cache \<Rightarrow> int \<Rightarrow> resource list \<Rightarrow> effect list \<times> (error + unit)" where
  "Cache_store c now data =
     (if closed c then
        (if onStoreAfterClose c = Throw then ([], Inl ClosedError) else ([], Inr ()))
      else
        let entriesWithTimes =
              map (\<lambda>it.
                     let entry = normalizeProducerResultResource
                                   (normalizeVary (normalizeParamName c) (normalizeParamValue c))
                                   it (Some now) now
                     in (entry, calculateStoreFor entry now))
                  data
        in (map (\<lambda>(entry, maxStoreForSeconds). EmitStore entry maxStoreForSeconds)
              entriesWithTimes
            @ [CallStoreStore entriesWithTimes],
            store_store (dataStore c) entriesWithTimes))"

definition Cache_close :: "cache \<Rightarrow> cache" where
  "Cache_close c = c\<lparr>closed := True\<rparr>"

section \<open>The producer wrappers (wrapProducer.ts, wrapBulkProducer.ts)\<close>

text \<open>\<open>RequestPairedProducerResult\<close>: a producer result whose id may be left out.\<close>

record paired_result =
  p_id :: "string option"
  p_vary :: "vary option"
  p_content :: string
  p_initialAge :: "real option"
  p_date :: "int option"
  p_directives :: producer_directives
  p_validators :: "(string \<times> string) list option"
  supplementalResources :: "resource list option"

record partial_request =
  pq_id :: string
  pq_params :: "params option"
  pq_directives :: "consumer_directives option"

definition completeRequest :: "partial_request \<Rightarrow> consumer_request" where
  "completeRequest req =
     \<lparr>req_id = pq_id req,
      req_params = (case pq_params req of Some ps \<Rightarrow> ps | None \<Rightarrow> []),
      req_directives = (case pq_directives req of Some ds \<Rightarrow> ds
                        | None \<Rightarrow> \<lparr>maxAge = None, c_maxStale = None\<rparr>)\<rparr>"

text \<open>The object \<open>{ id: reqId, ...rest }\<close>: an id of the result itself overrides \<open>reqId\<close>.\<close>

definition withRequestId :: "string \<Rightarrow> paired_result \<Rightarrow> resource" where
  "withRequestId reqId result =
     \<lparr>r_id = (case p_id result of Some i \<Rightarrow> i | None \<Rightarrow> reqId),
      r_vary = p_vary result, r_content = p_content result,
      r_initialAge = p_initialAge result, r_date = p_date result,
      r_directives = p_directives result, r_validators = p_validators result\<rparr>"

definition requestPairedProducerResultToResources ::
  "paired_result \<Rightarrow> string \<Rightarrow> resource list" where
  "requestPairedProducerResultToResources result reqId =
     withRequestId reqId result
     # (case supplementalResources result of Some rs \<Rightarrow> rs | None \<Rightarrow> [])"

definition primaryNormalizedResultResourceFromRequestPairedProducerResult ::
  "(vary \<Rightarrow> normalized_vary) \<Rightarrow> paired_result \<Rightarrow> string \<Rightarrow> int \<Rightarrow> entry" where
  "primaryNormalizedResultResourceFromRequestPairedProducerResult normalizeVaryBound result
     reqId now =
     normalizeProducerResultResource normalizeVaryBound (withRequestId reqId result) None now"

datatype OnCacheReadFailure = ThrowOnFailure | CallProducer

record WrapProducerOptions =
  isCacheable :: "string \<Rightarrow> params \<Rightarrow> bool"
  onCacheReadFailure :: OnCacheReadFailure

datatype CacheResultOutcome = Hit | StaleWhileRevalidate | Bypass | Miss | Uncacheable

text \<open>
  The handler that both wrappers attach to the cache read: a failed read is rethrown or,
  with \<open>call-producer\<close>, replaced by \<open>fallback\<close>, as if the cache had returned nothing.
\<close>

definition catchReadFailure :: "WrapProducerOptions \<Rightarrow> 'a \<Rightarrow> error + 'a \<Rightarrow> error + 'a" where
  "catchReadFailure options fallback outcome =
     (case outcome of
        Inl e \<Rightarrow> (case onCacheReadFailure options of
                    ThrowOnFailure \<Rightarrow> Inl e
                  | CallProducer \<Rightarrow> Inr fallback)
      | Inr res \<Rightarrow> Inr res)"

definition isRequestingCacheBypass :: "consumer_directives \<Rightarrow> bool" where
  "isRequestingCacheBypass dirs = (maxAge dirs = Some (Num 0))"

text \<open>
  \<open>wrappedProducer\<close> of \<open>wrapProducer\<close>. A promise is its outcome: \<open>Inl\<close> a rejection,
  \<open>Inr\<close> the value. \<open>producer\<close> is the outcome of the logged producer call;
  \<open>collapsedCallProducerAndStore\<close> is the outcome of the call through the request
  collapser (collapsedTaskCreator.js, which decides whether the producer runs again or an
  in-flight call is shared), taken as a parameter. The result comes with the outcomes
  published on the diagnostics channel, each with its cache key. The write of the
  producer's result to the cache is not awaited and its failure is only logged: it is left
  out, as is logging. \<open>now\<close> is the instant of the cache lookup, \<open>producedAt\<close> the one
  \<open>new Date()\<close> returns when a producer result is normalized.
\<close>

definition wrappedProducer ::
  "cache \<Rightarrow> WrapProducerOptions \<Rightarrow> (consumer_request \<Rightarrow> error + paired_result)
    \<Rightarrow> (consumer_request \<Rightarrow> error + paired_result) \<Rightarrow> int \<Rightarrow> int \<Rightarrow> partial_request
    \<Rightarrow> (CacheResultOutcome \<times> string) list \<times> (error + entry)" where
  "wrappedProducer cache options producer collapsedCallProducerAndStore now producedAt req =
     (let finalRequest = completeRequest req;
          ident = req_id finalRequest;
          normalizeVaryBound = normalizeVary (normalizeParamName cache)
                                 (normalizeParamValue cache)
      in if \<not> isCacheable options ident (req_params finalRequest) then
           ([(Uncacheable, ident)],
            case producer finalRequest of
              Inl e \<Rightarrow> Inl e
            | Inr unnormalizedResult \<Rightarrow>
                Inr (primaryNormalizedResultResourceFromRequestPairedProducerResult
                       normalizeVaryBound unnormalizedResult ident producedAt))
         else
           case catchReadFailure options noEntries (snd (Cache_get cache now finalRequest)) of
             Inl e \<Rightarrow> ([], Inl e)
           | Inr cacheRes \<Rightarrow>
               (case usable cacheRes of
                  Some u \<Rightarrow> ([(Hit, ident)], Inr u)
                | None \<Rightarrow>
                    (let newContentPromise =
                          (case collapsedCallProducerAndStore finalRequest of
                             Inl e \<Rightarrow> Inl e
                           | Inr it \<Rightarrow>
                               Inr (primaryNormalizedResultResourceFromRequestPairedProducerResult
                                      normalizeVaryBound it ident producedAt))
                    in (case usableWhileRevalidate cacheRes of
                         Some swr \<Rightarrow> ([(StaleWhileRevalidate, ident)], Inr swr)
                       | None \<Rightarrow>
                           ([((if isRequestingCacheBypass
                                    (case pq_directives req of Some ds \<Rightarrow> ds
                                     | None \<Rightarrow> \<lparr>maxAge = None, c_maxStale = None\<rparr>)
                               then Bypass else Miss), ident)],
                            case usableIfError cacheRes of
                              Some uie \<Rightarrow>
                                (case newContentPromise of
                                   Inl e \<Rightarrow> Inr uie
                                 | Inr fresh \<Rightarrow> Inr fresh)
                            | None \<Rightarrow> newContentPromise)))))"

text \<open>
  \<open>wrappedBulkProducer\<close> of \<open>wrapBulkProducer\<close>. Each completed request is a fresh object,
  modelled as its address (the order of allocation) with its value: the \<open>Map\<close> from
  completed requests to original indices is keyed by the address. The producers return an
  outcome per request, \<open>Inl\<close> an \<open>Error\<close> in the array; the outer \<open>Inl\<close> is a rejected
  promise. The output array is built by assignment at an index, so an element may stay
  unset (\<open>None\<close>). The background refresh for stale-while-revalidate requests is not
  awaited and its outcome is dropped: it is left out.
\<close>

type_synonym request_object = "nat \<times> consumer_request"

definition producerPart ::
  "(vary \<Rightarrow> normalized_vary) \<Rightarrow> int \<Rightarrow> (request_object \<times> CacheLookupResult) list
    \<Rightarrow> (error + paired_result) list \<Rightarrow> error + (request_object \<times> (error + entry)) list" where
  "producerPart normalizeVaryBound producedAt requestsNeedingProducerNow producerResults =
     (if length producerResults > length requestsNeedingProducerNow then Inl TypeError
      else Inr (map (\<lambda>(producerResult, i).
                       let (req, cacheResult) = requestsNeedingProducerNow ! i
                       in case producerResult of
                            Inl err \<Rightarrow>
                              (req, case usableIfError cacheResult of
                                      Some uie \<Rightarrow> Inr uie | None \<Rightarrow> Inl err)
                          | Inr res \<Rightarrow>
                              (req,
                               Inr (primaryNormalizedResultResourceFromRequestPairedProducerResult
                                      normalizeVaryBound res (req_id (snd req)) producedAt)))
                    (zip producerResults [0..<length producerResults])))"

definition uncacheablePart ::
  "(vary \<Rightarrow> normalized_vary) \<Rightarrow> int \<Rightarrow> request_object list
    \<Rightarrow> (error + paired_result) list \<Rightarrow> error + (request_object \<times> (error + entry)) list" where
  "uncacheablePart normalizeVaryBound producedAt nonCacheableRequests res =
     (if \<exists>i \<in> set [length nonCacheableRequests..<length res]. isl (res ! i) = False
      then Inl TypeError
      else Inr (zip nonCacheableRequests
                  (map (\<lambda>(producerResult, i).
                          case producerResult of
                            Inl err \<Rightarrow> Inl err
                          | Inr r \<Rightarrow>
                              Inr (primaryNormalizedResultResourceFromRequestPairedProducerResult
                                     normalizeVaryBound r
                                     (req_id (snd (nonCacheableRequests ! i))) producedAt))
                       (zip res [0..<length res]))))"

definition assignResults ::
  "(nat \<rightharpoonup> nat) \<Rightarrow> nat \<Rightarrow> (request_object \<times> (error + entry)) list
    \<Rightarrow> (error + entry) option list" where
  "assignResults finalRequestsToOriginalIndices n requestsWithResults =
     foldl (\<lambda>results (req, res).
              case finalRequestsToOriginalIndices (fst req) of
                Some i \<Rightarrow> results[i := Some res]
              | None \<Rightarrow> results)
           (replicate n None) requestsWithResults"

definition finalRequests :: "partial_request list \<Rightarrow> request_object list" where
  "finalRequests reqs = zip [0..<length reqs] (map completeRequest reqs)"

definition finalRequestsToOriginalIndices :: "request_object list \<Rightarrow> (nat \<rightharpoonup> nat)" where
  "finalRequestsToOriginalIndices finalReqs =
     map_of (map (\<lambda>(it, i). (fst it, i)) (zip finalReqs [0..<length finalReqs]))"

definition isCacheableRequest :: "WrapProducerOptions \<Rightarrow> request_object \<Rightarrow> bool" where
  "isCacheableRequest options req = isCacheable options (req_id (snd req)) (req_params (snd req))"

definition requestsWithUsableResults ::
  "(request_object \<times> CacheLookupResult) list \<Rightarrow> (request_object \<times> (error + entry)) list" where
  "requestsWithUsableResults requestsWithCacheResults =
     List.map_filter (\<lambda>(req, res). map_option (\<lambda>u. (req, Inr u)) (usable res))
       requestsWithCacheResults"

definition requestsWithUsableWhileRevalidateResults ::
  "(request_object \<times> CacheLookupResult) list \<Rightarrow> (request_object \<times> (error + entry)) list" where
  "requestsWithUsableWhileRevalidateResults requestsWithCacheResults =
     List.map_filter (\<lambda>(req, res). map_option (\<lambda>u. (req, Inr u)) (usableWhileRevalidate res))
       requestsWithCacheResults"

definition requestsNeedingProducerNow ::
  "(request_object \<times> CacheLookupResult) list \<Rightarrow> (request_object \<times> CacheLookupResult) list"
  where
  "requestsNeedingProducerNow requestsWithCacheResults =
     filter (\<lambda>(req, res). \<not> (usable res \<noteq> None \<or> usableWhileRevalidate res \<noteq> None))
       requestsWithCacheResults"

text \<open>The outcomes published: the hits, the stale-while-revalidate results, the misses, the
  uncacheable requests, in this order.\<close>

definition publishedOutcomes ::
  "(request_object \<times> CacheLookupResult) list \<Rightarrow> request_object list
    \<Rightarrow> (CacheResultOutcome \<times> string) list" where
  "publishedOutcomes requestsWithCacheResults nonCacheableRequests =
     map (\<lambda>(req, u). (Hit, req_id (snd req)))
       (requestsWithUsableResults requestsWithCacheResults)
     @ map (\<lambda>(req, u). (StaleWhileRevalidate, req_id (snd req)))
         (requestsWithUsableWhileRevalidateResults requestsWithCacheResults)
     @ map (\<lambda>(req, res).
              ((if isRequestingCacheBypass (req_directives (snd req)) then Bypass else Miss),
               req_id (snd req)))
         (requestsNeedingProducerNow requestsWithCacheResults)
     @ map (\<lambda>req. (Uncacheable, req_id (snd req))) nonCacheableRequests"

definition wrappedBulkProducer ::
  "cache \<Rightarrow> WrapProducerOptions
    \<Rightarrow> (consumer_request list \<Rightarrow> error + (error + paired_result) list)
    \<Rightarrow> (consumer_request list \<Rightarrow> error + (error + paired_result) list)
    \<Rightarrow> int \<Rightarrow> int \<Rightarrow> partial_request list
    \<Rightarrow> (CacheResultOutcome \<times> string) list \<times> (error + (error + entry) option list)" where
  "wrappedBulkProducer cache options producer collapsedCallProducerAndStore now producedAt
     reqs =
     (if length reqs = 0 then ([], Inr [])
      else
        let normalizeVaryBound = normalizeVary (normalizeParamName cache)
                                   (normalizeParamValue cache);
            (cacheableRequests, nonCacheableRequests) =
              partition (isCacheableRequest options) (finalRequests reqs);
            uncacheableProducerResultsPromise =
              (if length nonCacheableRequests > 0 then producer (map snd nonCacheableRequests)
               else Inr []);
            cacheResultsPromise =
              (if length cacheableRequests > 0 then
                 catchReadFailure options (map (\<lambda>_. noEntries) cacheableRequests)
                   (snd (Cache_getMany cache now (map snd cacheableRequests)))
               else Inr [])
        in case cacheResultsPromise of
             Inl e \<Rightarrow> ([], Inl e)
           | Inr cacheResults \<Rightarrow>
               (let requestsWithCacheResults = zip cacheableRequests cacheResults;
                    published = publishedOutcomes requestsWithCacheResults nonCacheableRequests
                in (case (if length (requestsNeedingProducerNow requestsWithCacheResults) > 0
                          then collapsedCallProducerAndStore
                                 (map (\<lambda>(req, res). snd req)
                                    (requestsNeedingProducerNow requestsWithCacheResults))
                          else Inr []) of
                      Inl e \<Rightarrow> (published, Inl e)
                    | Inr producerResults \<Rightarrow>
                        (case producerPart normalizeVaryBound producedAt
                                (requestsNeedingProducerNow requestsWithCacheResults)
                                producerResults of
                           Inl e \<Rightarrow> (published, Inl e)
                         | Inr fromProducer \<Rightarrow>
                             (case uncacheableProducerResultsPromise of
                                Inl e \<Rightarrow> (published, Inl e)
                              | Inr res \<Rightarrow>
                                  (case uncacheablePart normalizeVaryBound producedAt
                                          nonCacheableRequests res of
                                     Inl e \<Rightarrow> (published, Inl e)
                                   | Inr fromUncacheable \<Rightarrow>
                                       (published,
                                        Inr (assignResults
                                               (finalRequestsToOriginalIndices
                                                  (finalRequests reqs))
                                               (length (finalRequests reqs))
                                               (requestsWithUsableResults
                                                  requestsWithCacheResults
                                                @ requestsWithUsableWhileRevalidateResults
                                                    requestsWithCacheResults
                                                @ fromProducer @ fromUncacheable)))))))))"

section \<open>The properties, in the specification's terms\<close>

text \<open>The monotone chain of staleness thresholds: \<open>0 \<le> withoutRevalidation \<le> whileRevalidate \<le> ifError\<close>.\<close>

definition monotone_thresholds :: "'a max_stale_scheme \<Rightarrow> bool" where
  "monotone_thresholds ms =
     (Num 0 \<le> withoutRevalidation ms \<and> withoutRevalidation ms \<le> whileRevalidate ms
      \<and> whileRevalidate ms \<le> ifError ms)"

text \<open>A consumer \<open>maxStale\<close> in normalized form, as the specification's data model has it.\<close>

definition normal_form :: "consumer_max_stale \<Rightarrow> bool" where
  "normal_form ms =
     (monotone_thresholds ms
      \<and> (case c_freshUntilAge ms of Some f \<Rightarrow> Num 0 \<le> f | None \<Rightarrow> True))"

text \<open>
  The classification as the specification words it, for an entry of age \<open>a\<close> with producer
  directives \<open>pd\<close> and the consumer's \<open>maxStale\<close> \<open>cm\<close>, once \<open>maxAge\<close> is known not to be
  exceeded. \<open>F\<close> is the effective freshness lifetime, \<open>P\<close> and \<open>C\<close> the producer's and the
  consumer's thresholds with their defaults, \<open>s\<close> the staleness (only looked at when
  \<open>F\<close> is finite, since otherwise the entry is within \<open>F\<close>).
\<close>

definition classification_by_thresholds ::
  "real \<Rightarrow> producer_directives \<Rightarrow> consumer_max_stale option \<Rightarrow> EntryClassification" where
  "classification_by_thresholds a pd cm =
     (let F = min (case cm of
                     Some m \<Rightarrow> (case c_freshUntilAge m of Some f \<Rightarrow> f | None \<Rightarrow> Infinity)
                   | None \<Rightarrow> Infinity)
                  (freshUntilAge pd)
      in if Num a \<le> F then Usable
         else if maxStale pd = None \<and> cm = None then Unusable
         else
           let P = (case maxStale pd of
                      Some p \<Rightarrow> p
                    | None \<Rightarrow> \<lparr>withoutRevalidation = Infinity, whileRevalidate = Infinity,
                               ifError = Infinity\<rparr>);
               C = (case cm of
                      Some m \<Rightarrow> \<lparr>withoutRevalidation = withoutRevalidation m,
                                 whileRevalidate = whileRevalidate m, ifError = ifError m\<rparr>
                    | None \<Rightarrow>
                        if maxStale pd \<noteq> None
                        then \<lparr>withoutRevalidation = Num 0, whileRevalidate = whileRevalidate P,
                              ifError = ifError P\<rparr>
                        else \<lparr>withoutRevalidation = Num 0, whileRevalidate = Num 0,
                              ifError = Num 0\<rparr>);
               s = (case F of Num f \<Rightarrow> Num (a - f) | Infinity \<Rightarrow> Infinity)
           in if s \<le> min (withoutRevalidation C) (withoutRevalidation P) then Usable
              else if s \<le> min (whileRevalidate C) (whileRevalidate P)
              then UsableWhileRevalidate
              else if s \<le> min (ifError C) (ifError P) then UsableIfError
              else Unusable)"

text \<open>
  The clamping of a consumer \<open>maxStale\<close> as the specification words it: each threshold that
  violates \<open>0 \<le> withoutRevalidation \<le> whileRevalidate \<le> ifError\<close> is replaced by its
  predecessor's value, and a \<open>freshUntilAge\<close>, if present, is made non-negative.
\<close>

definition clamped :: "consumer_max_stale \<Rightarrow> consumer_max_stale" where
  "clamped m =
     (let wr = (if withoutRevalidation m < Num 0 then Num 0 else withoutRevalidation m);
          wrv = (if whileRevalidate m < wr then wr else whileRevalidate m);
          ie = (if ifError m < wrv then wrv else ifError m)
      in \<lparr>withoutRevalidation = wr, whileRevalidate = wrv, ifError = ie,
          c_freshUntilAge =
            (case c_freshUntilAge m of
               Some f \<Rightarrow> Some (if f < Num 0 then Num 0 else f)
             | None \<Rightarrow> None)\<rparr>)"

text \<open>
  \<open>latest_born x xs\<close>: \<open>x\<close> is the entry of \<open>xs\<close> with the greatest birth date and, among
  those of that birth date, the last in the order of \<open>xs\<close>.
\<close>

definition latest_born :: "entry \<Rightarrow> entry list \<Rightarrow> bool" where
  "latest_born x xs =
     (\<exists>i < length xs. xs ! i = x
        \<and> (\<forall>j < length xs. birthDate (xs ! j) \<le> birthDate x)
        \<and> (\<forall>j < length xs. i < j \<longrightarrow> birthDate (xs ! j) < birthDate x))"

text \<open>
  The store time as the specification words it: \<open>max(0, min(r, p))\<close>, with \<open>r\<close> the
  requested store time and \<open>p\<close> the time for which the entry may still be useful.
\<close>

definition store_time_by_formula :: "entry \<Rightarrow> int \<Rightarrow> jsnum" where
  "store_time_by_formula e now =
     (let r = (case storeFor (directives e) of
                 Some s \<Rightarrow> num_sub s (initialAge e)
               | None \<Rightarrow> Infinity);
          p = (case maxStale (directives e) of
                 Some ms \<Rightarrow>
                   if validators e = []
                   then num_sub (num_add (freshUntilAge (directives e)) (ifError ms)) (age e now)
                   else Infinity
               | None \<Rightarrow> Infinity)
      in max (Num 0) (min r p))"

text \<open>
  The outcome of a producer call for one request, normalized as the wrappers do: an error
  stays, a result becomes the normalized primary resource under the request's id.
\<close>

definition normalized_outcome ::
  "cache \<Rightarrow> int \<Rightarrow> consumer_request \<Rightarrow> error + paired_result \<Rightarrow> error + entry" where
  "normalized_outcome cache producedAt req outcome =
     (case outcome of
        Inl err \<Rightarrow> Inl err
      | Inr res \<Rightarrow>
          Inr (primaryNormalizedResultResourceFromRequestPairedProducerResult
                 (normalizeVary (normalizeParamName cache) (normalizeParamValue cache))
                 res (req_id req) producedAt))"

text \<open>
  Recovery of a producer outcome by a lookup: a failure is replaced by the \<open>usableIfError\<close>
  entry when the lookup has one, and stays otherwise; a success stays.
\<close>

definition recovered :: "CacheLookupResult \<Rightarrow> error + entry \<Rightarrow> error + entry" where
  "recovered lookup outcome =
     (case outcome of
        Inl err \<Rightarrow> (case usableIfError lookup of Some uie \<Rightarrow> Inr uie | None \<Rightarrow> Inl err)
      | Inr fresh \<Rightarrow> Inr fresh)"

text \<open>
  The positions in the input of the requests that are cacheable, and of those that are
  not, in input order: the batches sent to the cache and straight to the producer.
\<close>

definition cacheable_indices :: "WrapProducerOptions \<Rightarrow> consumer_request list \<Rightarrow> nat list" where
  "cacheable_indices options fs =
     filter (\<lambda>i. isCacheable options (req_id (fs ! i)) (req_params (fs ! i))) [0..<length fs]"

definition uncacheable_indices :: "WrapProducerOptions \<Rightarrow> consumer_request list \<Rightarrow> nat list" where
  "uncacheable_indices options fs =
     filter (\<lambda>i. \<not> isCacheable options (req_id (fs ! i)) (req_params (fs ! i)))
       [0..<length fs]"

text \<open>
  Each cacheable position with the lookup that the cache returned at its place in the
  batch, and those of them with neither a \<open>usable\<close> nor a \<open>usableWhileRevalidate\<close> entry:
  the batch sent to the producer through the collapser.
\<close>

definition lookups_by_index ::
  "WrapProducerOptions \<Rightarrow> consumer_request list \<Rightarrow> CacheLookupResult list
    \<Rightarrow> (nat \<times> CacheLookupResult) list" where
  "lookups_by_index options fs lookups = zip (cacheable_indices options fs) lookups"

definition needing_producer ::
  "WrapProducerOptions \<Rightarrow> consumer_request list \<Rightarrow> CacheLookupResult list
    \<Rightarrow> (nat \<times> CacheLookupResult) list" where
  "needing_producer options fs lookups =
     filter (\<lambda>(i, l). usable l = None \<and> usableWhileRevalidate l = None)
       (lookups_by_index options fs lookups)"

text \<open>
  The outcome computed for \<open>input[i]\<close>, from the completed requests \<open>fs\<close>, the lookups
  returned for the cacheable batch, the results \<open>prodRes\<close> returned for the batch needing
  the producer and the results \<open>uncRes\<close> returned for the uncacheable batch; each batch
  result belongs to the request at the same place in the batch. \<open>None\<close> when a batch
  returned no result for the request.
\<close>

definition bulk_outcome ::
  "cache \<Rightarrow> WrapProducerOptions \<Rightarrow> int \<Rightarrow> consumer_request list \<Rightarrow> CacheLookupResult list
    \<Rightarrow> (error + paired_result) list \<Rightarrow> (error + paired_result) list \<Rightarrow> nat
    \<Rightarrow> (error + entry) option" where
  "bulk_outcome cache options producedAt fs lookups prodRes uncRes i =
     (if isCacheable options (req_id (fs ! i)) (req_params (fs ! i)) then
        (case map_of (lookups_by_index options fs lookups) i of
           None \<Rightarrow> None
         | Some l \<Rightarrow>
             (case usable l of
                Some u \<Rightarrow> Some (Inr u)
              | None \<Rightarrow>
                  (case usableWhileRevalidate l of
                     Some s \<Rightarrow> Some (Inr s)
                   | None \<Rightarrow>
                       map_option
                         (\<lambda>p. recovered l (normalized_outcome cache producedAt (fs ! i) p))
                         (map_of (zip (map fst (needing_producer options fs lookups)) prodRes)
                            i))))
      else map_option (normalized_outcome cache producedAt (fs ! i))
             (map_of (zip (uncacheable_indices options fs) uncRes) i))"


text \<open>
  A collaborator is only called with a batch that is not empty; the empty batch resolves
  to no results.
\<close>

definition batch_call :: "('a list \<Rightarrow> error + 'b list) \<Rightarrow> 'a list \<Rightarrow> error + 'b list" where
  "batch_call f batch = (if batch = [] then Inr [] else f batch)"


section \<open>Arithmetic on extended numbers\<close>

lemma jsnum_less_simps [simp]:
  "Num a < Num b \<longleftrightarrow> a < b" "Num a < Infinity" "\<not> Infinity < x"
  by (auto simp: less_jsnum_def)

lemma Infinity_le_iff [simp]: "Infinity \<le> x \<longleftrightarrow> x = Infinity"
  by (cases x) simp_all

lemma max_Num [simp]: "max (Num a) (Num b) = Num (max a b)"
  by (simp add: max_def)

lemma min_Num [simp]: "min (Num a) (Num b) = Num (min a b)"
  by (simp add: min_def)

lemma min_Infinity [simp]: "min Infinity x = x" "min x Infinity = x"
  by (cases x; simp add: min_def)+

lemma max_Infinity [simp]: "max Infinity x = Infinity" "max x Infinity = Infinity"
  by (cases x; simp add: max_def)+

section \<open>The classifier\<close>

lemma finalConsumerMaxStale_eq:
  "finalConsumerMaxStale pd cm =
     (case cm of
        Some m \<Rightarrow> \<lparr>withoutRevalidation = withoutRevalidation m,
                   whileRevalidate = whileRevalidate m, ifError = ifError m\<rparr>
      | None \<Rightarrow>
          if maxStale pd \<noteq> None
          then \<lparr>withoutRevalidation = Num 0,
                whileRevalidate =
                  whileRevalidate
                    (case maxStale pd of
                       Some p \<Rightarrow> p
                     | None \<Rightarrow> \<lparr>withoutRevalidation = Infinity, whileRevalidate = Infinity,
                                ifError = Infinity\<rparr>),
                ifError =
                  ifError
                    (case maxStale pd of
                       Some p \<Rightarrow> p
                     | None \<Rightarrow> \<lparr>withoutRevalidation = Infinity, whileRevalidate = Infinity,
                                ifError = Infinity\<rparr>)\<rparr>
          else \<lparr>withoutRevalidation = Num 0, whileRevalidate = Num 0, ifError = Num 0\<rparr>)"
  by (simp add: finalConsumerMaxStale_def max_stale.truncate_def split: option.splits)

lemma normalizeConsumerMaxStale_normal_form:
  "normal_form ms \<Longrightarrow> normalizeConsumerMaxStale ms = ms"
  by (cases ms)
     (auto simp: normal_form_def monotone_thresholds_def normalizeConsumerMaxStale_def Let_def
        max_def split: option.splits)

lemma classify_within_maxAge:
  assumes "\<forall>M. maxAge c = Some M \<longrightarrow> \<not> M < Num (age e now)"
  shows "classify e c now =
           classification_by_thresholds (age e now) (directives e)
             (map_option normalizeConsumerMaxStale (c_maxStale c))"
proof -
  have m: "(case maxAge c of Some m \<Rightarrow> Num (age e now) > m | None \<Rightarrow> False) = False"
    using assms by (auto split: option.splits)
  have g: "(case c_maxStale c of Some ms \<Rightarrow> Some (normalizeConsumerMaxStale ms) | None \<Rightarrow> None)
           = map_option normalizeConsumerMaxStale (c_maxStale c)"
    by (simp split: option.splits)
  define cm where "cm = map_option normalizeConsumerMaxStale (c_maxStale c)"
  define F where "F = effectiveFreshUntilAge (directives e) cm"
  have F: "min (case cm of
                  Some m \<Rightarrow> (case c_freshUntilAge m of Some f \<Rightarrow> f | None \<Rightarrow> Infinity)
                | None \<Rightarrow> Infinity)
               (freshUntilAge (directives e)) = F"
    by (simp add: F_def effectiveFreshUntilAge_def)
  show ?thesis
    unfolding classify_def classification_by_thresholds_def Let_def m g cm_def[symmetric]
      finalProducerMaxStale_def finalConsumerMaxStale_eq F F_def[symmetric]
    by (cases F) simp_all
qed

lemma normalizeConsumerMaxStale_clamped: "normalizeConsumerMaxStale m = clamped m"
proof -
  have m: "max a b = (if b < a then a else b)" for a b :: jsnum
    by (auto simp: max_def)
  show ?thesis
    unfolding normalizeConsumerMaxStale_def clamped_def Let_def m
    by (cases "c_freshUntilAge m") simp_all
qed

text \<open>
  C1, as the code has it: for every entry, consumer directives and instant at which the
  consumer's \<open>maxAge\<close> is not exceeded, \<open>classify\<close> returns what the specification's threshold
  rules give for the entry's age, the producer's directives and the consumer's \<open>maxStale\<close>
  after clamping: \<open>Usable\<close> within the effective freshness lifetime; beyond it \<open>Unusable\<close>
  when neither party supplied a \<open>maxStale\<close>, and otherwise the first of \<open>Usable\<close>,
  \<open>UsableWhileRevalidate\<close>, \<open>UsableIfError\<close> whose threshold (the minimum of both parties')
  is not below the staleness, else \<open>Unusable\<close>; all comparisons non-strict. The rules apply
  to the consumer's \<open>maxStale\<close> as supplied when that is in normalized form. On a supplied
  \<open>maxStale\<close> that is not, the rules applied to the supplied values can differ from the
  code, as the example after the theorem shows.
\<close>

theorem classify_by_thresholds:
  assumes "\<forall>M. maxAge c = Some M \<longrightarrow> \<not> M < Num (age e now)"
  shows "classify e c now =
           classification_by_thresholds (age e now) (directives e)
             (map_option clamped (c_maxStale c))
         \<and> (\<forall>ms. c_maxStale c = Some ms \<and> normal_form ms
                \<longrightarrow> classify e c now =
                      classification_by_thresholds (age e now) (directives e) (Some ms))"
proof -
  have n: "normalizeConsumerMaxStale = clamped"
    by (rule ext) (rule normalizeConsumerMaxStale_clamped)
  have 1: "classify e c now =
             classification_by_thresholds (age e now) (directives e)
               (map_option clamped (c_maxStale c))"
    using classify_within_maxAge [OF assms] unfolding n .
  have 2: "classify e c now =
             classification_by_thresholds (age e now) (directives e) (Some ms)"
    if "c_maxStale c = Some ms" "normal_form ms" for ms
    using classify_within_maxAge [OF assms] normalizeConsumerMaxStale_normal_form [OF that(2)]
      that(1)
    by simp
  from 1 2 show ?thesis by blast
qed

theorem classify_by_thresholds_witness:
  "classify
     \<lparr>entry_id = ''a'', vary = [], content = ''x'', initialAge = 2, date = 1000,
      directives = \<lparr>freshUntilAge = Num 10,
                    maxStale = Some \<lparr>withoutRevalidation = Num 0, whileRevalidate = Num 30,
                                     ifError = Num 60\<rparr>,
                    storeFor = None\<rparr>,
      validators = []\<rparr>
     \<lparr>maxAge = Some (Num 100),
      c_maxStale = Some \<lparr>withoutRevalidation = Num 5, whileRevalidate = Num 20,
                         ifError = Num 40, c_freshUntilAge = Some (Num 8)\<rparr>\<rparr>
     30000 = UsableIfError"
proof -
  let ?e = "\<lparr>entry_id = ''a'', vary = [], content = ''x'', initialAge = 2, date = 1000,
      directives = \<lparr>freshUntilAge = Num 10,
                    maxStale = Some \<lparr>withoutRevalidation = Num 0, whileRevalidate = Num 30,
                                     ifError = Num 60\<rparr>,
                    storeFor = None\<rparr>,
      validators = []\<rparr>"
  let ?c = "\<lparr>maxAge = Some (Num 100),
      c_maxStale = Some \<lparr>withoutRevalidation = Num 5, whileRevalidate = Num 20,
                         ifError = Num 40, c_freshUntilAge = Some (Num 8)\<rparr>\<rparr>"
  have a: "age ?e 30000 = 31" by (simp add: age_def birthDate_def newDate_def)
  have h: "\<forall>M. maxAge ?c = Some M \<longrightarrow> \<not> M < Num (age ?e 30000)"
    unfolding a by simp
  have n: "normal_form \<lparr>withoutRevalidation = Num 5, whileRevalidate = Num 20,
                         ifError = Num 40, c_freshUntilAge = Some (Num 8)\<rparr>"
    by (simp add: normal_form_def monotone_thresholds_def)
  have "classify ?e ?c 30000 =
          classification_by_thresholds (age ?e 30000) (directives ?e)
            (Some \<lparr>withoutRevalidation = Num 5, whileRevalidate = Num 20,
                         ifError = Num 40, c_freshUntilAge = Some (Num 8)\<rparr>)"
    by (rule classify_by_thresholds [OF h, THEN conjunct2, rule_format]) (simp add: n)
  then show ?thesis unfolding a by (simp add: classification_by_thresholds_def)
qed

text \<open>
  The rules on a consumer \<open>maxStale\<close> taken as supplied: the entry is 15 s old and fresh for
  10 s, the producer allows \<open>{0, 20, 20}\<close> and the consumer supplies \<open>{10, 0, 0}\<close>. The code
  clamps the consumer's thresholds to \<open>{10, 10, 10}\<close> and answers \<open>UsableWhileRevalidate\<close>;
  the rules on the supplied values answer \<open>Unusable\<close>.
\<close>

theorem classify_supplied_maxStale_counterexample:
  "classify
     \<lparr>entry_id = ''a'', vary = [], content = ''x'', initialAge = 0, date = 0,
      directives = \<lparr>freshUntilAge = Num 10,
                    maxStale = Some \<lparr>withoutRevalidation = Num 0, whileRevalidate = Num 20,
                                     ifError = Num 20\<rparr>,
                    storeFor = None\<rparr>,
      validators = []\<rparr>
     \<lparr>maxAge = None,
      c_maxStale = Some \<lparr>withoutRevalidation = Num 10, whileRevalidate = Num 0,
                         ifError = Num 0, c_freshUntilAge = None\<rparr>\<rparr>
     15000 = UsableWhileRevalidate
   \<and> classification_by_thresholds
       (age \<lparr>entry_id = ''a'', vary = [], content = ''x'', initialAge = 0, date = 0,
      directives = \<lparr>freshUntilAge = Num 10,
                    maxStale = Some \<lparr>withoutRevalidation = Num 0, whileRevalidate = Num 20,
                                     ifError = Num 20\<rparr>,
                    storeFor = None\<rparr>,
      validators = []\<rparr> 15000)
       (directives \<lparr>entry_id = ''a'', vary = [], content = ''x'', initialAge = 0, date = 0,
      directives = \<lparr>freshUntilAge = Num 10,
                    maxStale = Some \<lparr>withoutRevalidation = Num 0, whileRevalidate = Num 20,
                                     ifError = Num 20\<rparr>,
                    storeFor = None\<rparr>,
      validators = []\<rparr>)
       (c_maxStale \<lparr>maxAge = None,
      c_maxStale = Some \<lparr>withoutRevalidation = Num 10, whileRevalidate = Num 0,
                         ifError = Num 0, c_freshUntilAge = None\<rparr>\<rparr>)
     = Unusable"
  by (simp add: classify_def effectiveFreshUntilAge_def finalProducerMaxStale_def
        finalConsumerMaxStale_def normalizeConsumerMaxStale_def max_stale.truncate_def
        classification_by_thresholds_def age_def birthDate_def newDate_def Let_def)

text \<open>
  C2: when the consumer sets \<open>maxAge = M\<close> and the entry's age exceeds \<open>M\<close>, the entry is
  \<open>Unusable\<close>, whatever \<open>maxStale\<close> either party supplies.
\<close>

theorem classify_maxAge_ceiling:
  assumes "maxAge c = Some M" and "Num (age e now) > M"
  shows "classify e c now = Unusable"
  using assms by (simp add: classify_def)

theorem classify_maxAge_ceiling_witness:
  "classify
     \<lparr>entry_id = ''a'', vary = [], content = ''x'', initialAge = 0, date = 0,
      directives = \<lparr>freshUntilAge = Num 100,
                    maxStale = Some \<lparr>withoutRevalidation = Infinity, whileRevalidate = Infinity,
                                     ifError = Infinity\<rparr>,
                    storeFor = None\<rparr>,
      validators = []\<rparr>
     \<lparr>maxAge = Some (Num 5),
      c_maxStale = Some \<lparr>withoutRevalidation = Infinity, whileRevalidate = Infinity,
                         ifError = Infinity, c_freshUntilAge = None\<rparr>\<rparr>
     6000 = Unusable"
  by (rule classify_maxAge_ceiling [where M = "Num 5"])
     (simp_all add: age_def birthDate_def newDate_def)

text \<open>
  C9: an entry whose birth lies after the instant of the lookup has a negative age and is
  to be treated as not fresh. \<open>isFresh\<close> does so, requiring \<open>0 \<le> age\<close>; \<open>classify\<close> compares
  the age with the freshness lifetime only, without that lower bound. With no \<open>maxStale\<close> on
  either side and no \<open>maxAge\<close>, the entry born at 5000 ms is not fresh at 0 ms and yet is
  classified \<open>Usable\<close> there, where \<open>Unusable\<close> is called for.
\<close>

theorem classify_before_birth:
  "age \<lparr>entry_id = ''a'', vary = [], content = ''x'', initialAge = 0, date = 5000,
        directives = \<lparr>freshUntilAge = Num 10, maxStale = None, storeFor = None\<rparr>,
        validators = []\<rparr> 0 < 0
   \<and> isFresh \<lparr>entry_id = ''a'', vary = [], content = ''x'', initialAge = 0, date = 5000,
        directives = \<lparr>freshUntilAge = Num 10, maxStale = None, storeFor = None\<rparr>,
        validators = []\<rparr> 0 = False
   \<and> classify \<lparr>entry_id = ''a'', vary = [], content = ''x'', initialAge = 0, date = 5000,
        directives = \<lparr>freshUntilAge = Num 10, maxStale = None, storeFor = None\<rparr>,
        validators = []\<rparr> \<lparr>maxAge = None, c_maxStale = None\<rparr> 0 = Usable"
  by (simp add: age_def birthDate_def newDate_def isFresh_def classify_def
        effectiveFreshUntilAge_def)

section \<open>Normalized thresholds\<close>

lemma normalizeProducerMaxStale_monotone:
  "monotone_thresholds (normalizeProducerMaxStale raw)"
  by (simp add: monotone_thresholds_def normalizeProducerMaxStale_def Let_def)

lemma normalizeConsumerMaxStale_monotone:
  "monotone_thresholds (normalizeConsumerMaxStale raw)"
  by (simp add: monotone_thresholds_def normalizeConsumerMaxStale_def Let_def)

lemma normalized_entry_monotone:
  "maxStale (directives (normalizeProducerResultResource nv r fb now)) = Some ms
    \<Longrightarrow> monotone_thresholds ms"
  by (auto simp: normalizeProducerResultResource_def normalizeProducerDirectives_def
        normalizeProducerMaxStale_monotone split: option.splits)

lemma finalProducerMaxStale_monotone:
  "(\<And>ms. maxStale pd = Some ms \<Longrightarrow> monotone_thresholds ms)
    \<Longrightarrow> monotone_thresholds (finalProducerMaxStale pd)"
  by (auto simp: finalProducerMaxStale_def monotone_thresholds_def split: option.splits)

lemma finalConsumerMaxStale_monotone:
  "(\<And>ms. maxStale pd = Some ms \<Longrightarrow> monotone_thresholds ms)
    \<Longrightarrow> monotone_thresholds
          (finalConsumerMaxStale pd (map_option normalizeConsumerMaxStale cm))"
  using normalizeConsumerMaxStale_monotone
  by (auto simp: finalConsumerMaxStale_def monotone_thresholds_def max_stale.truncate_def
        split: option.splits)

text \<open>
  C8: whatever the raw numbers, a normalized producer or consumer \<open>maxStale\<close> satisfies
  \<open>0 \<le> withoutRevalidation \<le> whileRevalidate \<le> ifError\<close>; hence so does the \<open>maxStale\<close> a
  normalized entry holds, and so do the producer's and the consumer's thresholds that
  \<open>classify\<close> uses for a normalized entry.
\<close>

theorem normalized_maxStale_monotone:
  "monotone_thresholds (normalizeProducerMaxStale rawP)
   \<and> monotone_thresholds (normalizeConsumerMaxStale rawC)
   \<and> (\<forall>ms. maxStale (directives (normalizeProducerResultResource nv r fb now)) = Some ms
          \<longrightarrow> monotone_thresholds ms)
   \<and> monotone_thresholds
       (finalProducerMaxStale (directives (normalizeProducerResultResource nv r fb now)))
   \<and> monotone_thresholds
       (finalConsumerMaxStale (directives (normalizeProducerResultResource nv r fb now))
          (map_option normalizeConsumerMaxStale cm))"
  using normalizeProducerMaxStale_monotone normalizeConsumerMaxStale_monotone
    normalized_entry_monotone finalProducerMaxStale_monotone finalConsumerMaxStale_monotone
  by blast

theorem normalized_maxStale_monotone_witness:
  "maxStale (directives (normalizeProducerResultResource (\<lambda>v. [])
      \<lparr>r_id = ''a'', r_vary = None, r_content = ''x'', r_initialAge = None, r_date = None,
       r_directives = \<lparr>freshUntilAge = Num 1,
                       maxStale = Some \<lparr>withoutRevalidation = Num (- 3),
                                        whileRevalidate = Num 7, ifError = Num 2\<rparr>,
                       storeFor = None\<rparr>,
       r_validators = None\<rparr> None 0))
     = Some \<lparr>withoutRevalidation = Num 0, whileRevalidate = Num 7, ifError = Num 7\<rparr>
   \<and> monotone_thresholds
       \<lparr>withoutRevalidation = Num 0, whileRevalidate = Num 7, ifError = Num 7\<rparr>"
proof -
  let ?r = "\<lparr>r_id = ''a'', r_vary = None, r_content = ''x'', r_initialAge = None,
       r_date = None,
       r_directives = \<lparr>freshUntilAge = Num 1,
                       maxStale = Some \<lparr>withoutRevalidation = Num (- 3),
                                        whileRevalidate = Num 7, ifError = Num 2\<rparr>,
                       storeFor = None\<rparr>,
       r_validators = None\<rparr>"
  have e: "maxStale (directives (normalizeProducerResultResource (\<lambda>v. []) ?r None 0))
             = Some \<lparr>withoutRevalidation = Num 0, whileRevalidate = Num 7, ifError = Num 7\<rparr>"
    by (simp add: normalizeProducerResultResource_def normalizeProducerDirectives_def
          normalizeProducerMaxStale_def Let_def)
  from normalized_maxStale_monotone [of _ _ "\<lambda>v. []" ?r None 0] e
  show ?thesis by blast
qed

section \<open>Grouping the entries of a lookup\<close>

lemma groupBy_foldl:
  "foldl (\<lambda>result item.
              let key = f item
              in result(key \<mapsto> (case result key of None \<Rightarrow> [] | Some g \<Rightarrow> g) @ [item]))
         m xs k
   = (if filter (\<lambda>x. f x = k) xs = [] then m k
      else Some ((case m k of None \<Rightarrow> [] | Some g \<Rightarrow> g) @ filter (\<lambda>x. f x = k) xs))"
  by (induction xs arbitrary: m) (auto simp: Let_def)

lemma groupBy_lookup:
  "groupBy xs f k =
     (if filter (\<lambda>x. f x = k) xs = [] then None else Some (filter (\<lambda>x. f x = k) xs))"
  unfolding groupBy_def groupBy_foldl by simp

lemma last_filter_index:
  "filter P xs \<noteq> [] \<Longrightarrow>
     \<exists>i < length xs. xs ! i = last (filter P xs) \<and> P (xs ! i)
        \<and> (\<forall>j < length xs. i < j \<longrightarrow> \<not> P (xs ! j))"
proof (induction xs rule: rev_induct)
  case Nil
  then show ?case by simp
next
  case (snoc a xs)
  show ?case
  proof (cases "P a")
    case True
    then show ?thesis
      by (intro exI [of _ "length xs"]) simp
  next
    case False
    with snoc.prems have "filter P xs \<noteq> []" by simp
    from snoc.IH [OF this] obtain i where i: "i < length xs" "xs ! i = last (filter P xs)"
      "P (xs ! i)" "\<forall>j < length xs. i < j \<longrightarrow> \<not> P (xs ! j)" by blast
    show ?thesis
    proof (intro exI [of _ i] conjI allI impI)
      show "i < length (xs @ [a])" using i by simp
      show "(xs @ [a]) ! i = last (filter P (xs @ [a]))" using i False by (simp add: nth_append)
      show "P ((xs @ [a]) ! i)" using i by (simp add: nth_append)
      fix j assume "j < length (xs @ [a])" "i < j"
      then show "\<not> P ((xs @ [a]) ! j)" using i False by (cases "j < length xs") (auto simp: nth_append less_Suc_eq)
    qed
  qed
qed

lemma sorted_le_last:
  fixes xs :: "int list"
  assumes "sorted xs" "x \<in> set xs"
  shows "x \<le> last xs"
proof -
  have ne: "xs \<noteq> []" using assms(2) by auto
  then have xs: "xs = butlast xs @ [last xs]" by simp
  then have "sorted (butlast xs @ [last xs])" using assms(1) by simp
  then have "\<forall>y \<in> set (butlast xs). y \<le> last xs" by (simp add: sorted_append)
  moreover have "x \<in> set (butlast xs) \<or> x = last xs"
    using assms(2) xs by (metis Un_iff empty_iff insert_iff list.set(1,2) set_append)
  ultimately show ?thesis by auto
qed

lemma last_filter_last:
  assumes "xs \<noteq> []" "P (last xs)"
  shows "last (filter P xs) = last xs"
proof -
  have "filter P xs = filter P (butlast xs @ [last xs])" using assms(1) by simp
  also have "\<dots> = filter P (butlast xs) @ [last xs]" using assms(2) by simp
  finally show ?thesis by simp
qed

lemma bestEntry_latest_born:
  assumes "xs \<noteq> []"
  shows "\<exists>x. bestEntry xs = Some x \<and> latest_born x xs"
proof -
  define s where "s = sort_key birthDate xs"
  define x where "x = last s"
  define P where "P = (\<lambda>y. birthDate y = birthDate x)"
  have "length s = length xs" by (simp add: s_def)
  then have ne: "s \<noteq> []" using assms by auto
  have best: "bestEntry xs = Some x" using ne by (simp add: bestEntry_def s_def x_def)
  have "sorted (map birthDate s)" by (simp add: s_def)
  moreover have "last (map birthDate s) = birthDate x" using ne by (simp add: x_def last_map)
  ultimately have le: "\<forall>y \<in> set s. birthDate y \<le> birthDate x"
    using sorted_le_last [of "map birthDate s"] by force
  have sets: "set s = set xs" by (simp add: s_def)
  have "P (last s)" by (simp add: P_def x_def)
  then have "last (filter P s) = x" using ne by (simp add: last_filter_last x_def)
  moreover have "filter P s = filter P xs"
    unfolding P_def s_def by (rule sort_key_stable)
  ultimately have lx: "last (filter P xs) = x" by simp
  have "x \<in> set s" using ne by (simp add: x_def)
  then have "x \<in> set xs" using sets by simp
  then have "filter P xs \<noteq> []" by (auto simp: filter_empty_conv P_def)
  from last_filter_index [OF this] obtain i where i: "i < length xs"
    "xs ! i = last (filter P xs)" "\<forall>j < length xs. i < j \<longrightarrow> \<not> P (xs ! j)" by blast
  have "latest_born x xs"
    unfolding latest_born_def
  proof (intro exI [of _ i] conjI allI impI)
    show "i < length xs" by (rule i)
    show "xs ! i = x" using i lx by simp
    fix j assume j: "j < length xs"
    then have "xs ! j \<in> set s" using sets by simp
    then show "birthDate (xs ! j) \<le> birthDate x" using le by blast
  next
    fix j assume j: "j < length xs" "i < j"
    then have "xs ! j \<in> set s" using sets by simp
    then have "birthDate (xs ! j) \<le> birthDate x" using le by blast
    moreover have "birthDate (xs ! j) \<noteq> birthDate x" using i(3) j by (simp add: P_def)
    ultimately show "birthDate (xs ! j) < birthDate x" by simp
  qed
  with best show ?thesis by blast
qed

lemma latest_born_unique:
  assumes "latest_born x xs" "latest_born y xs"
  shows "x = y"
proof -
  from assms obtain i j where
    i: "i < length xs" "xs ! i = x" "\<forall>k < length xs. birthDate (xs ! k) \<le> birthDate x"
       "\<forall>k < length xs. i < k \<longrightarrow> birthDate (xs ! k) < birthDate x"
    and j: "j < length xs" "xs ! j = y" "\<forall>k < length xs. birthDate (xs ! k) \<le> birthDate y"
       "\<forall>k < length xs. j < k \<longrightarrow> birthDate (xs ! k) < birthDate y"
    unfolding latest_born_def by blast
  have "birthDate x = birthDate y" using i j by (metis order_antisym)
  then have "\<not> i < j" "\<not> j < i" using i j by (metis less_irrefl)+
  then show ?thesis using i j by (simp add: not_less order_antisym)
qed

text \<open>
  C3: the grouping step shared by \<open>get\<close> and \<open>getMany\<close>. If some entry classifies as
  \<open>Usable\<close>, the result is exactly the \<open>Usable\<close> entry born last (of equally late ones the
  last in input order) as \<open>usable\<close>, with \<open>validatable\<close> empty and nothing else set, even
  when entries with validators exist. Otherwise \<open>validatable\<close> is the sublist of the entries
  with validators, and \<open>usableWhileRevalidate\<close> is the latest-born
  \<open>UsableWhileRevalidate\<close> entry if there is one, else \<open>usableIfError\<close> is the latest-born
  \<open>UsableIfError\<close> entry, unset when there is none.
\<close>

theorem processCacheEntries_grouping:
  "let U = filter (\<lambda>e. classify e dirs now = Usable) entries;
       W = filter (\<lambda>e. classify e dirs now = UsableWhileRevalidate) entries;
       E = filter (\<lambda>e. classify e dirs now = UsableIfError) entries;
       V = filter (\<lambda>e. validators e \<noteq> []) entries;
       r = processCacheEntries entries dirs now
   in (U \<noteq> [] \<longrightarrow>
         (\<exists>x. latest_born x U
            \<and> r = \<lparr>usable = Some x, usableWhileRevalidate = None, usableIfError = None,
                   validatable = []\<rparr>))
    \<and> (U = [] \<and> W \<noteq> [] \<longrightarrow>
         (\<exists>x. latest_born x W
            \<and> r = \<lparr>usable = None, usableWhileRevalidate = Some x, usableIfError = None,
                   validatable = V\<rparr>))
    \<and> (U = [] \<and> W = [] \<and> E \<noteq> [] \<longrightarrow>
         (\<exists>x. latest_born x E
            \<and> r = \<lparr>usable = None, usableWhileRevalidate = None, usableIfError = Some x,
                   validatable = V\<rparr>))
    \<and> (U = [] \<and> W = [] \<and> E = [] \<longrightarrow>
         r = \<lparr>usable = None, usableWhileRevalidate = None, usableIfError = None,
              validatable = V\<rparr>)"
proof -
  have v: "filter isValidatable entries = filter (\<lambda>e. validators e \<noteq> []) entries"
    by (rule filter_cong) (simp_all add: isValidatable_def)
  show ?thesis
    unfolding Let_def processCacheEntries_def groupBy_lookup v
    using bestEntry_latest_born by (simp; blast)
qed


theorem processCacheEntries_grouping_witness:
  "processCacheEntries
     [\<lparr>entry_id = ''a'', vary = [], content = ''old'', initialAge = 0, date = 0,
        directives = \<lparr>freshUntilAge = Num 10, maxStale = None, storeFor = None\<rparr>,
        validators = [(''etag'', ''1'')]\<rparr>,
      \<lparr>entry_id = ''a'', vary = [], content = ''new'', initialAge = 0, date = 2000,
        directives = \<lparr>freshUntilAge = Num 10, maxStale = None, storeFor = None\<rparr>,
        validators = []\<rparr>]
     \<lparr>maxAge = None, c_maxStale = None\<rparr> 5000
   = \<lparr>usable = Some \<lparr>entry_id = ''a'', vary = [], content = ''new'', initialAge = 0, date = 2000,
        directives = \<lparr>freshUntilAge = Num 10, maxStale = None, storeFor = None\<rparr>,
        validators = []\<rparr>,
      usableWhileRevalidate = None, usableIfError = None, validatable = []\<rparr>"
proof -
  let ?e1 = "\<lparr>entry_id = ''a'', vary = [], content = ''old'', initialAge = 0, date = 0,
        directives = \<lparr>freshUntilAge = Num 10, maxStale = None, storeFor = None\<rparr>,
        validators = [(''etag'', ''1'')]\<rparr>"
  let ?e2 = "\<lparr>entry_id = ''a'', vary = [], content = ''new'', initialAge = 0, date = 2000,
        directives = \<lparr>freshUntilAge = Num 10, maxStale = None, storeFor = None\<rparr>,
        validators = []\<rparr>"
  let ?d = "\<lparr>maxAge = None, c_maxStale = None\<rparr>"
  have c1: "classify ?e1 ?d 5000 = Usable"
    by (simp add: classify_def effectiveFreshUntilAge_def age_def birthDate_def newDate_def)
  have c2: "classify ?e2 ?d 5000 = Usable"
    by (simp add: classify_def effectiveFreshUntilAge_def age_def birthDate_def newDate_def)
  have u: "filter (\<lambda>e. classify e ?d 5000 = Usable) [?e1, ?e2] = [?e1, ?e2]"
    using c1 c2 by simp
  from processCacheEntries_grouping [of ?d 5000 "[?e1, ?e2]"]
  obtain x where x: "latest_born x [?e1, ?e2]"
    and r: "processCacheEntries [?e1, ?e2] ?d 5000
              = \<lparr>usable = Some x, usableWhileRevalidate = None, usableIfError = None,
                 validatable = []\<rparr>"
    unfolding Let_def u by blast
  have b1: "birthDate ?e1 = 0" and b2: "birthDate ?e2 = 2000"
    by (simp_all add: birthDate_def newDate_def)
  have "x = ?e2"
    using x
    by (auto simp: latest_born_def All_less_Suc less_Suc_eq b1 b2)
  with r show ?thesis by simp
qed

section \<open>Batched and single lookups\<close>

lemma getMany_closed:
  "closed c \<Longrightarrow> reqs \<noteq> [] \<Longrightarrow>
     snd (Cache_getMany c now reqs) =
       (if onGetAfterClose c = Throw then Inl ClosedError else Inr (map (\<lambda>_. noEntries) reqs))"
  by (simp add: Cache_getMany_def)

lemma get_closed:
  "closed c \<Longrightarrow>
     snd (Cache_get c now req) =
       (if onGetAfterClose c = Throw then Inl ClosedError else Inr noEntries)"
  by (simp add: Cache_get_def)

lemma getMany_open:
  assumes "\<not> closed c" "reqs \<noteq> []"
    and "\<And>rs. store_getMany (dataStore c) rs = Inr (map (\<lambda>(i, p). g i p) rs)"
  shows "snd (Cache_getMany c now reqs) =
           Inr (map (\<lambda>req. processCacheEntries
                      (g (req_id req)
                         (normalizeParams (normalizeParamName c) (normalizeParamValue c)
                            (req_params req)))
                      (req_directives req) now) reqs)"
proof -
  have "map (\<lambda>(req, i).
               processCacheEntries
                 (map (\<lambda>(i, p). g i p)
                    (map (\<lambda>req. (req_id req,
                                 normalizeParams (normalizeParamName c) (normalizeParamValue c)
                                   (req_params req))) reqs) ! i)
                 (req_directives req) now)
            (zip reqs [0..<length reqs])
        = map (\<lambda>req. processCacheEntries
                      (g (req_id req)
                         (normalizeParams (normalizeParamName c) (normalizeParamValue c)
                            (req_params req)))
                      (req_directives req) now) reqs"
    by (rule nth_equalityI) simp_all
  then show ?thesis
    using assms by (simp add: Cache_getMany_def Let_def)
qed

lemma get_open:
  assumes "\<not> closed c"
    and "\<And>i p. store_get (dataStore c) i p = Inr (g i p)"
  shows "snd (Cache_get c now req) =
           Inr (processCacheEntries
                      (g (req_id req)
                         (normalizeParams (normalizeParamName c) (normalizeParamValue c)
                            (req_params req)))
                      (req_directives req) now)"
  using assms by (simp add: Cache_get_def Let_def)

text \<open>
  C6: with a backing store that is a pure function and whose \<open>getMany\<close> returns for each
  pair of id and normalized params the entries its \<open>get\<close> returns, \<open>getMany\<close> at an instant
  \<open>now\<close> gives for each request what \<open>get\<close> gives for it at \<open>now\<close>: when it returns, a list
  as long as the input whose i-th element is the result of \<open>get\<close> on the i-th request; when
  it throws (a non-empty batch on a closed cache that throws), \<open>get\<close> throws the same error
  on every request. This holds for every list of requests, distinct ids or not.
\<close>

theorem getMany_agrees_with_get:
  assumes "\<forall>i p. store_get (dataStore c) i p = Inr (g i p)"
    and "\<forall>rs. store_getMany (dataStore c) rs = Inr (map (\<lambda>(i, p). g i p) rs)"
  shows "case snd (Cache_getMany c now reqs) of
           Inr results \<Rightarrow>
             length results = length reqs
             \<and> (\<forall>i < length reqs. snd (Cache_get c now (reqs ! i)) = Inr (results ! i))
         | Inl err \<Rightarrow>
             reqs \<noteq> [] \<and> (\<forall>i < length reqs. snd (Cache_get c now (reqs ! i)) = Inl err)"
proof (cases "reqs = []")
  case True
  then show ?thesis by (simp add: Cache_getMany_def)
next
  case False
  show ?thesis
  proof (cases "closed c")
    case True
    then show ?thesis using False by (simp add: getMany_closed get_closed)
  next
    case c: False
    have m: "\<And>rs. store_getMany (dataStore c) rs = Inr (map (\<lambda>(i, p). g i p) rs)"
      and s: "\<And>i p. store_get (dataStore c) i p = Inr (g i p)"
      using assms by simp_all
    show ?thesis
      by (simp add: getMany_open [OF c False m] get_open [OF c s])
  qed
qed


theorem getMany_agrees_with_get_witness:
  "snd (Cache_get
          \<lparr>dataStore =
           \<lparr>store_get = (\<lambda>i p. Inr (if i = ''a'' then [\<lparr>entry_id = ''a'', vary = [], content = ''x'', initialAge = 0, date = 0,
           directives = \<lparr>freshUntilAge = Num 10, maxStale = None, storeFor = None\<rparr>,
           validators = []\<rparr>] else [])),
            store_getMany = (\<lambda>rs. Inr (map (\<lambda>(i, p). if i = ''a'' then [\<lparr>entry_id = ''a'', vary = [], content = ''x'', initialAge = 0, date = 0,
           directives = \<lparr>freshUntilAge = Num 10, maxStale = None, storeFor = None\<rparr>,
           validators = []\<rparr>] else []) rs)),
            store_store = (\<lambda>es. Inr ())\<rparr>,
         closed = False, onGetAfterClose = Throw, onStoreAfterClose = Throw,
         normalizeParamName = (\<lambda>k. k), normalizeParamValue = (\<lambda>k v. v)\<rparr>
          5000
          \<lparr>req_id = ''a'', req_params = [], req_directives = \<lparr>maxAge = None, c_maxStale = None\<rparr>\<rparr>)
   = Inr \<lparr>usable = Some \<lparr>entry_id = ''a'', vary = [], content = ''x'', initialAge = 0, date = 0,
           directives = \<lparr>freshUntilAge = Num 10, maxStale = None, storeFor = None\<rparr>,
           validators = []\<rparr>,
          usableWhileRevalidate = None, usableIfError = None, validatable = []\<rparr>"
proof -
  let ?e = "\<lparr>entry_id = ''a'', vary = [], content = ''x'', initialAge = 0, date = 0,
           directives = \<lparr>freshUntilAge = Num 10, maxStale = None, storeFor = None\<rparr>,
           validators = []\<rparr>"
  let ?g = "\<lambda>(i::string) (p::normalized_params). if i = ''a'' then [?e] else []"
  let ?c = "\<lparr>dataStore =
           \<lparr>store_get = (\<lambda>i p. Inr (if i = ''a'' then [?e] else [])),
            store_getMany = (\<lambda>rs. Inr (map (\<lambda>(i, p). if i = ''a'' then [?e] else []) rs)),
            store_store = (\<lambda>es. Inr ())\<rparr>,
         closed = False, onGetAfterClose = Throw, onStoreAfterClose = Throw,
         normalizeParamName = (\<lambda>k. k), normalizeParamValue = (\<lambda>k v. v)\<rparr>"
  let ?d = "\<lparr>maxAge = None, c_maxStale = None\<rparr>"
  let ?r1 = "\<lparr>req_id = ''a'', req_params = [], req_directives = ?d\<rparr>"
  let ?r2 = "\<lparr>req_id = ''b'', req_params = [], req_directives = ?d\<rparr>"
  have h1: "\<forall>i p. store_get (dataStore ?c) i p = Inr (?g i p)" by simp
  have h2: "\<forall>rs. store_getMany (dataStore ?c) rs = Inr (map (\<lambda>(i, p). ?g i p) rs)" by simp
  have c: "classify ?e ?d 5000 = Usable"
    by (simp add: classify_def effectiveFreshUntilAge_def age_def birthDate_def newDate_def)
  have p1: "processCacheEntries [?e] ?d 5000
              = \<lparr>usable = Some ?e, usableWhileRevalidate = None, usableIfError = None,
                 validatable = []\<rparr>"
    by (simp add: processCacheEntries_def groupBy_lookup c bestEntry_def)
  have p2: "processCacheEntries [] ?d 5000
              = \<lparr>usable = None, usableWhileRevalidate = None, usableIfError = None,
                 validatable = []\<rparr>"
    by (simp add: processCacheEntries_def groupBy_lookup)
  have m: "snd (Cache_getMany ?c 5000 [?r1, ?r2])
             = Inr [\<lparr>usable = Some ?e, usableWhileRevalidate = None, usableIfError = None,
                     validatable = []\<rparr>,
                    \<lparr>usable = None, usableWhileRevalidate = None, usableIfError = None,
                     validatable = []\<rparr>]"
    by (simp add: Cache_getMany_def Let_def p1 p2 upt_rec [of 0] upt_rec [of 1])
  from getMany_agrees_with_get [OF h1 h2, where now = 5000 and reqs = "[?r1, ?r2]"]
  have "\<forall>i < 2. snd (Cache_get ?c 5000 ([?r1, ?r2] ! i))
          = Inr ([\<lparr>usable = Some ?e, usableWhileRevalidate = None, usableIfError = None,
                     validatable = []\<rparr>,
                    \<lparr>usable = None, usableWhileRevalidate = None, usableIfError = None,
                     validatable = []\<rparr>] ! i)"
    unfolding m by simp
  from this [rule_format, of 0] show ?thesis by simp
qed

section \<open>Store times\<close>

lemma calculateStoreFor_formula: "calculateStoreFor e now = store_time_by_formula e now"
  by (simp add: calculateStoreFor_def store_time_by_formula_def potentiallyUsefulFor_def
        isValidatable_def split: option.splits)

lemma Cache_store_open:
  "\<not> closed c \<Longrightarrow>
   fst (Cache_store c now data) =
     map (\<lambda>raw. EmitStore
                   (normalizeProducerResultResource
                      (normalizeVary (normalizeParamName c) (normalizeParamValue c))
                      raw (Some now) now)
                   (store_time_by_formula
                      (normalizeProducerResultResource
                         (normalizeVary (normalizeParamName c) (normalizeParamValue c))
                         raw (Some now) now) now)) data
     @ [CallStoreStore
          (map (\<lambda>raw. (normalizeProducerResultResource
                          (normalizeVary (normalizeParamName c) (normalizeParamValue c))
                          raw (Some now) now,
                        store_time_by_formula
                          (normalizeProducerResultResource
                             (normalizeVary (normalizeParamName c) (normalizeParamValue c))
                             raw (Some now) now) now)) data)]"
  by (simp add: Cache_store_def Let_def calculateStoreFor_formula comp_def)


text \<open>
  C7: the \<open>maxStoreForSeconds\<close> that \<open>store\<close> computes for a normalized entry is
  \<open>max(0, min(r, p))\<close>, where \<open>r\<close> is \<open>storeFor - initialAge\<close> when \<open>storeFor\<close> is present and
  \<open>Infinity\<close> otherwise, and \<open>p\<close> is \<open>freshUntilAge + maxStale.ifError - age\<close> when
  \<open>maxStale\<close> is present and the entry has no validators, and \<open>Infinity\<close> otherwise. An open
  cache emits this value with the \<open>"store"\<close> event of each entry, in input order, and then
  hands the same entries and values to the backing store.
\<close>

theorem store_maxStoreForSeconds:
  "calculateStoreFor e now = store_time_by_formula e now
   \<and> (\<not> closed c \<longrightarrow>
        fst (Cache_store c now data) =
          map (\<lambda>raw. EmitStore
                        (normalizeProducerResultResource
                           (normalizeVary (normalizeParamName c) (normalizeParamValue c))
                           raw (Some now) now)
                        (store_time_by_formula
                           (normalizeProducerResultResource
                              (normalizeVary (normalizeParamName c) (normalizeParamValue c))
                              raw (Some now) now) now)) data
          @ [CallStoreStore
               (map (\<lambda>raw. (normalizeProducerResultResource
                               (normalizeVary (normalizeParamName c) (normalizeParamValue c))
                               raw (Some now) now,
                             store_time_by_formula
                               (normalizeProducerResultResource
                                  (normalizeVary (normalizeParamName c) (normalizeParamValue c))
                                  raw (Some now) now) now)) data)])"
  using calculateStoreFor_formula Cache_store_open by blast

theorem store_maxStoreForSeconds_witness:
  "fst (Cache_store
          \<lparr>dataStore = \<lparr>store_get = (\<lambda>i p. Inr []), store_getMany = (\<lambda>rs. Inr []),
                       store_store = (\<lambda>es. Inr ())\<rparr>,
         closed = False, onGetAfterClose = Throw, onStoreAfterClose = Throw,
         normalizeParamName = (\<lambda>k. k), normalizeParamValue = (\<lambda>k v. v)\<rparr>
          7000
          [\<lparr>r_id = ''a'', r_vary = None, r_content = ''x'', r_initialAge = Some 20,
          r_date = None,
          r_directives = \<lparr>freshUntilAge = Num 10,
                          maxStale = Some \<lparr>withoutRevalidation = Num 0,
                                           whileRevalidate = Num 30, ifError = Num 60\<rparr>,
                          storeFor = Some (Num 100)\<rparr>,
          r_validators = None\<rparr>])
   = [EmitStore
        \<lparr>entry_id = ''a'', vary = [], content = ''x'', initialAge = 20, date = 7000,
          directives = \<lparr>freshUntilAge = Num 10,
                          maxStale = Some \<lparr>withoutRevalidation = Num 0,
                                           whileRevalidate = Num 30, ifError = Num 60\<rparr>,
                          storeFor = Some (Num 100)\<rparr>,
          validators = []\<rparr>
        (Num 50),
      CallStoreStore
        [(\<lparr>entry_id = ''a'', vary = [], content = ''x'', initialAge = 20, date = 7000,
          directives = \<lparr>freshUntilAge = Num 10,
                          maxStale = Some \<lparr>withoutRevalidation = Num 0,
                                           whileRevalidate = Num 30, ifError = Num 60\<rparr>,
                          storeFor = Some (Num 100)\<rparr>,
          validators = []\<rparr>,
          Num 50)]]"
proof -
  let ?c = "\<lparr>dataStore = \<lparr>store_get = (\<lambda>i p. Inr []), store_getMany = (\<lambda>rs. Inr []),
                       store_store = (\<lambda>es. Inr ())\<rparr>,
         closed = False, onGetAfterClose = Throw, onStoreAfterClose = Throw,
         normalizeParamName = (\<lambda>k. k), normalizeParamValue = (\<lambda>k v. v)\<rparr>"
  let ?r = "\<lparr>r_id = ''a'', r_vary = None, r_content = ''x'', r_initialAge = Some 20,
          r_date = None,
          r_directives = \<lparr>freshUntilAge = Num 10,
                          maxStale = Some \<lparr>withoutRevalidation = Num 0,
                                           whileRevalidate = Num 30, ifError = Num 60\<rparr>,
                          storeFor = Some (Num 100)\<rparr>,
          r_validators = None\<rparr>"
  let ?e = "\<lparr>entry_id = ''a'', vary = [], content = ''x'', initialAge = 20, date = 7000,
          directives = \<lparr>freshUntilAge = Num 10,
                          maxStale = Some \<lparr>withoutRevalidation = Num 0,
                                           whileRevalidate = Num 30, ifError = Num 60\<rparr>,
                          storeFor = Some (Num 100)\<rparr>,
          validators = []\<rparr>"
  have n: "normalizeProducerResultResource
             (normalizeVary (normalizeParamName ?c) (normalizeParamValue ?c)) ?r (Some 7000) 7000
           = ?e"
    by (simp add: normalizeProducerResultResource_def normalizeProducerDirectives_def
          normalizeProducerMaxStale_def normalizeVary_def fromEntries_def Let_def)
  have a: "age ?e 7000 = 20" by (simp add: age_def birthDate_def newDate_def)
  have t: "store_time_by_formula ?e 7000 = Num 50"
    by (simp add: store_time_by_formula_def a)
  have o: "\<not> closed ?c" by simp
  from store_maxStoreForSeconds [where e = ?e and now = 7000 and c = ?c and data = "[?r]"] o
  have "fst (Cache_store ?c 7000 [?r]) =
          map (\<lambda>raw. EmitStore
                        (normalizeProducerResultResource
                           (normalizeVary (normalizeParamName ?c) (normalizeParamValue ?c))
                           raw (Some 7000) 7000)
                        (store_time_by_formula
                           (normalizeProducerResultResource
                              (normalizeVary (normalizeParamName ?c) (normalizeParamValue ?c))
                              raw (Some 7000) 7000) 7000)) [?r]
          @ [CallStoreStore
               (map (\<lambda>raw. (normalizeProducerResultResource
                               (normalizeVary (normalizeParamName ?c) (normalizeParamValue ?c))
                               raw (Some 7000) 7000,
                             store_time_by_formula
                               (normalizeProducerResultResource
                                  (normalizeVary (normalizeParamName ?c) (normalizeParamValue ?c))
                                  raw (Some 7000) 7000) 7000)) [?r])]"
    by blast
  then show ?thesis unfolding list.map n t by simp
qed

section \<open>The empty batch\<close>

text \<open>
  C10: \<open>getMany\<close> on the empty list of requests returns the empty list and makes no call to
  the backing store, also on a cache that has been closed and whose policy is to throw;
  on that cache \<open>getMany\<close> throws on every non-empty list.
\<close>

theorem getMany_empty:
  "Cache_getMany c now [] = ([], Inr [])
   \<and> Cache_getMany (Cache_close c) now [] = ([], Inr [])
   \<and> (onGetAfterClose c = Throw \<and> reqs \<noteq> []
        \<longrightarrow> Cache_getMany (Cache_close c) now reqs = ([], Inl ClosedError))"
  by (simp add: Cache_getMany_def Cache_close_def)

theorem getMany_empty_witness:
  "Cache_getMany
     (Cache_close
        \<lparr>dataStore = \<lparr>store_get = (\<lambda>i p. Inr []), store_getMany = (\<lambda>rs. Inr []),
                       store_store = (\<lambda>es. Inr ())\<rparr>,
         closed = False, onGetAfterClose = Throw, onStoreAfterClose = Throw,
         normalizeParamName = (\<lambda>k. k), normalizeParamValue = (\<lambda>k v. v)\<rparr>)
     0 [] = ([], Inr [])
   \<and> Cache_getMany
     (Cache_close
        \<lparr>dataStore = \<lparr>store_get = (\<lambda>i p. Inr []), store_getMany = (\<lambda>rs. Inr []),
                       store_store = (\<lambda>es. Inr ())\<rparr>,
         closed = False, onGetAfterClose = Throw, onStoreAfterClose = Throw,
         normalizeParamName = (\<lambda>k. k), normalizeParamValue = (\<lambda>k v. v)\<rparr>)
     0 [\<lparr>req_id = ''a'', req_params = [],
          req_directives = \<lparr>maxAge = None, c_maxStale = None\<rparr>\<rparr>]
     = ([], Inl ClosedError)"
  using getMany_empty
    [where c = "\<lparr>dataStore = \<lparr>store_get = (\<lambda>i p. Inr []), store_getMany = (\<lambda>rs. Inr []),
                       store_store = (\<lambda>es. Inr ())\<rparr>,
         closed = False, onGetAfterClose = Throw, onStoreAfterClose = Throw,
         normalizeParamName = (\<lambda>k. k), normalizeParamValue = (\<lambda>k v. v)\<rparr>"
      and now = 0
      and reqs = "[\<lparr>req_id = ''a'', req_params = [],
          req_directives = \<lparr>maxAge = None, c_maxStale = None\<rparr>\<rparr>]"]
  by simp


section \<open>The producer wrappers\<close>


lemma finalRequests_nth:
  "finalRequests reqs
     = map (\<lambda>i. (i, map completeRequest reqs ! i)) [0..<length (map completeRequest reqs)]"
  unfolding finalRequests_def by (rule nth_equalityI) simp_all

lemma finalRequestsToOriginalIndices_eq:
  "finalRequestsToOriginalIndices (finalRequests reqs) k
     = (if k < length reqs then Some k else None)"
proof -
  have "map (\<lambda>(it, i). (fst it, i))
          (zip (finalRequests reqs) [0..<length (finalRequests reqs)])
          = map (\<lambda>i. (i, i)) [0..<length reqs]"
    unfolding finalRequests_def by (rule nth_equalityI) simp_all
  then show ?thesis
    by (simp add: finalRequestsToOriginalIndices_def map_of_map_restrict restrict_map_def)
qed

lemma assign_foldl:
  "length acc = n \<Longrightarrow> i < n \<Longrightarrow>
   foldl (\<lambda>results (req, res).
            case (if fst req < n then Some (fst req) else None) of
              Some i \<Rightarrow> results[i := Some res]
            | None \<Rightarrow> results) acc ps ! i
     = (case map_of (rev (map (\<lambda>(req, res). (fst req, res)) ps)) i of
          Some r \<Rightarrow> Some r | None \<Rightarrow> acc ! i)"
proof (induction ps arbitrary: acc)
  case Nil
  then show ?case by simp
next
  case (Cons p ps)
  obtain req res where p: "p = (req, res)" by (cases p)
  show ?case
    using Cons.prems
    by (simp add: p Cons.IH map_add_def nth_list_update split: option.splits)
qed

lemma assign_foldl_length:
  "length (foldl (\<lambda>results (req, res).
            case (if fst req < n then Some (fst req) else None) of
              Some i \<Rightarrow> results[i := Some res]
            | None \<Rightarrow> results) acc ps) = length acc"
  by (induction ps arbitrary: acc) (auto split: option.splits)

lemma assignResults_length:
  "length (assignResults (finalRequestsToOriginalIndices (finalRequests reqs)) (length reqs) ps)
     = length reqs"
  unfolding assignResults_def finalRequestsToOriginalIndices_eq
  by (simp add: assign_foldl_length)

lemma assignResults_nth:
  "i < length reqs \<Longrightarrow>
   assignResults (finalRequestsToOriginalIndices (finalRequests reqs)) (length reqs) ps ! i
     = map_of (rev (map (\<lambda>(req, res). (fst req, res)) ps)) i"
  unfolding assignResults_def finalRequestsToOriginalIndices_eq
  by (simp add: assign_foldl split: option.splits)

lemma map_of_rev_distinct:
  "distinct (map fst xs) \<Longrightarrow> map_of (rev xs) k = map_of xs k"
proof (cases "map_of xs k")
  case None
  then have "map_of (rev xs) k = None" by (simp add: map_of_eq_None_iff)
  with None show ?thesis by simp
next
  case (Some v)
  assume "distinct (map fst xs)"
  then have "distinct (map fst (rev xs))" by (simp add: rev_map [symmetric])
  moreover have "(k, v) \<in> set (rev xs)" using Some by (auto dest: map_of_SomeD)
  ultimately show ?thesis using Some by simp
qed

lemma map_of_keyed_filter:
  "distinct (map fst zs) \<Longrightarrow>
   map_of (map (\<lambda>(k, l). (k, h k l)) (filter (\<lambda>(k, l). Q l) zs)) i
     = (case map_of zs i of Some l \<Rightarrow> if Q l then Some (h i l) else None | None \<Rightarrow> None)"
proof (induction zs)
  case Nil
  then show ?case by simp
next
  case (Cons z zs)
  obtain k l where z: "z = (k, l)" by (cases z)
  have "i = k \<Longrightarrow> map_of zs i = None"
    using Cons.prems by (simp add: z map_of_eq_None_iff)
  then show ?case using Cons by (auto simp: z)
qed

lemma distinct_keyed_filter:
  "distinct (map fst zs) \<Longrightarrow>
   distinct (map fst (map (\<lambda>(k, l). (k, h k l)) (filter (\<lambda>(k, l). Q l) zs)))"
proof -
  have "fst \<circ> (\<lambda>(k, l). (k, h k l)) = fst"
    by (auto simp: fun_eq_iff)
  then have "map fst (map (\<lambda>(k, l). (k, h k l)) (filter (\<lambda>(k, l). Q l) zs))
          = map fst (filter (\<lambda>(k, l). Q l) zs)"
    by simp
  then show "distinct (map fst zs) \<Longrightarrow> ?thesis"
    by (simp only: distinct_map_filter)
qed

lemma map_of_keyed_zip:
  "distinct (map fst nps) \<Longrightarrow>
   map_of (map (\<lambda>((k, l), p). (k, h k l p)) (zip nps ps)) i
     = (case map_of nps i of
          None \<Rightarrow> None
        | Some l \<Rightarrow> map_option (h i l) (map_of (zip (map fst nps) ps) i))"
proof (induction nps arbitrary: ps)
  case Nil
  then show ?case by simp
next
  case (Cons z nps)
  obtain k l where z: "z = (k, l)" by (cases z)
  have n: "i = k \<Longrightarrow> map_of nps i = None"
    using Cons.prems by (simp add: z map_of_eq_None_iff)
  have d: "distinct (map fst nps)" using Cons.prems by simp
  note IH = Cons.IH [OF d]
  show ?case
  proof (cases ps)
    case Nil
    then show ?thesis by (simp split: option.splits)
  next
    case ps: (Cons p ps')
    show ?thesis using IH [of ps'] n by (auto simp: z ps split: option.splits)
  qed
qed

lemma distinct_keyed_zip:
  "distinct (map fst nps) \<Longrightarrow>
   distinct (map fst (map (\<lambda>((k, l), p). (k, h k l p)) (zip nps ps)))"
proof -
  have "map fst (map (\<lambda>((k, l), p). (k, h k l p)) (zip nps ps))
          = take (length ps) (map fst nps)"
    by (rule nth_equalityI) (simp_all add: case_prod_beta)
  then show "distinct (map fst nps) \<Longrightarrow> ?thesis" by simp
qed

lemma cacheable_objects:
  "filter (isCacheableRequest options) (finalRequests reqs)
     = map (\<lambda>i. (i, map completeRequest reqs ! i))
         (cacheable_indices options (map completeRequest reqs))"
  unfolding finalRequests_nth cacheable_indices_def
  by (simp add: filter_map comp_def isCacheableRequest_def)

lemma uncacheable_objects:
  "filter (Not \<circ> isCacheableRequest options) (finalRequests reqs)
     = map (\<lambda>i. (i, map completeRequest reqs ! i))
         (uncacheable_indices options (map completeRequest reqs))"
  unfolding finalRequests_nth uncacheable_indices_def
  by (simp add: filter_map comp_def isCacheableRequest_def)

lemma filter_by_index:
  "map (\<lambda>i. fs ! i) (filter (\<lambda>i. P (fs ! i)) [0..<length fs]) = filter P fs"
proof -
  have "filter P (map (\<lambda>i. fs ! i) [0..<length fs])
          = map (\<lambda>i. fs ! i) (filter (\<lambda>i. P (fs ! i)) [0..<length fs])"
    by (simp add: filter_map comp_def)
  then show ?thesis by (simp add: map_nth)
qed

lemma cacheable_batch:
  "map snd (map (\<lambda>i. (i, fs ! i)) (cacheable_indices options fs))
     = filter (\<lambda>r. isCacheable options (req_id r) (req_params r)) fs"
  unfolding cacheable_indices_def
  by (simp add: comp_def filter_by_index [where P = "\<lambda>r. isCacheable options (req_id r) (req_params r)"])

lemma uncacheable_batch:
  "map snd (map (\<lambda>i. (i, fs ! i)) (uncacheable_indices options fs))
     = filter (\<lambda>r. \<not> isCacheable options (req_id r) (req_params r)) fs"
  unfolding uncacheable_indices_def
  by (simp add: comp_def filter_by_index [where P = "\<lambda>r. \<not> isCacheable options (req_id r) (req_params r)"])

lemma zip_objects:
  "zip (map (\<lambda>i. (i, fs ! i)) idxs) lookups
     = map (\<lambda>(i, l). ((i, fs ! i), l)) (zip idxs lookups)"
  by (simp add: zip_map1)

lemma keyed_usable:
  "map (\<lambda>(req, res). (fst req, res))
     (requestsWithUsableResults (map (\<lambda>(i, l). ((i, fs ! i), l)) zs))
   = map (\<lambda>(k, l). (k, Inr (the (usable l)))) (filter (\<lambda>(k, l). usable l \<noteq> None) zs)"
  unfolding requestsWithUsableResults_def
  by (induction zs) auto

lemma keyed_usableWhileRevalidate:
  "map (\<lambda>(req, res). (fst req, res))
     (requestsWithUsableWhileRevalidateResults (map (\<lambda>(i, l). ((i, fs ! i), l)) zs))
   = map (\<lambda>(k, l). (k, Inr (the (usableWhileRevalidate l))))
       (filter (\<lambda>(k, l). usableWhileRevalidate l \<noteq> None) zs)"
  unfolding requestsWithUsableWhileRevalidateResults_def
  by (induction zs) auto

lemma needing_objects:
  "requestsNeedingProducerNow (map (\<lambda>(i, l). ((i, fs ! i), l)) zs)
     = map (\<lambda>(i, l). ((i, fs ! i), l))
         (filter (\<lambda>(i, l). usable l = None \<and> usableWhileRevalidate l = None) zs)"
  unfolding requestsNeedingProducerNow_def
  by (induction zs) auto

lemma producerPart_keyed:
  assumes "length prodRes \<le> length nps"
  shows "\<exists>fromProducer.
           producerPart (normalizeVary (normalizeParamName cache) (normalizeParamValue cache))
             producedAt (map (\<lambda>(i, l). ((i, fs ! i), l)) nps) prodRes = Inr fromProducer
           \<and> map (\<lambda>(req, res). (fst req, res)) fromProducer
               = map (\<lambda>((k, l), p).
                        (k, recovered l (normalized_outcome cache producedAt (fs ! k) p)))
                   (zip nps prodRes)"
proof -
  have "map (\<lambda>(req, res). (fst req, res))
          (map (\<lambda>(producerResult, i).
                  let (req, cacheResult) = map (\<lambda>(i, l). ((i, fs ! i), l)) nps ! i
                  in case producerResult of
                       Inl err \<Rightarrow>
                         (req, case usableIfError cacheResult of
                                 Some uie \<Rightarrow> Inr uie | None \<Rightarrow> Inl err)
                     | Inr res \<Rightarrow>
                         (req,
                          Inr (primaryNormalizedResultResourceFromRequestPairedProducerResult
                                 (normalizeVary (normalizeParamName cache)
                                    (normalizeParamValue cache))
                                 res (req_id (snd req)) producedAt)))
               (zip prodRes [0..<length prodRes]))
        = map (\<lambda>((k, l), p).
                 (k, recovered l (normalized_outcome cache producedAt (fs ! k) p)))
            (zip nps prodRes)"
    using assms
    by (intro nth_equalityI)
       (auto simp: recovered_def normalized_outcome_def case_prod_beta split: sum.splits)
  then show ?thesis using assms by (simp add: producerPart_def)
qed

lemma uncacheablePart_keyed:
  assumes "length uncRes \<le> length idxs"
  shows "\<exists>fromUncacheable.
           uncacheablePart (normalizeVary (normalizeParamName cache) (normalizeParamValue cache))
             producedAt (map (\<lambda>i. (i, fs ! i)) idxs) uncRes = Inr fromUncacheable
           \<and> map (\<lambda>(req, res). (fst req, res)) fromUncacheable
               = map (\<lambda>(k, p). (k, normalized_outcome cache producedAt (fs ! k) p))
                   (zip idxs uncRes)"
proof -
  have "map (\<lambda>(req, res). (fst req, res))
          (zip (map (\<lambda>i. (i, fs ! i)) idxs)
             (map (\<lambda>(producerResult, i).
                     case producerResult of
                       Inl err \<Rightarrow> Inl err
                     | Inr r \<Rightarrow>
                         Inr (primaryNormalizedResultResourceFromRequestPairedProducerResult
                                (normalizeVary (normalizeParamName cache)
                                   (normalizeParamValue cache))
                                r (req_id (snd (map (\<lambda>i. (i, fs ! i)) idxs ! i))) producedAt))
                  (zip uncRes [0..<length uncRes])))
        = map (\<lambda>(k, p). (k, normalized_outcome cache producedAt (fs ! k) p))
            (zip idxs uncRes)"
    using assms
    by (intro nth_equalityI)
       (auto simp: normalized_outcome_def case_prod_beta split: sum.splits)
  then show ?thesis using assms by (simp add: uncacheablePart_def)
qed

lemma map_of_keyed_map:
  "map_of (map (\<lambda>(k, v). (k, f k v)) xs) i = map_option (f i) (map_of xs i)"
  by (induction xs) auto

lemma processCacheEntries_exclusive:
  "usable (processCacheEntries entries dirs now) \<noteq> None
    \<Longrightarrow> usableWhileRevalidate (processCacheEntries entries dirs now) = None"
  by (simp add: processCacheEntries_def Let_def split: option.splits)

lemma Cache_getMany_exclusive:
  assumes "snd (Cache_getMany c now rs) = Inr ls" and "l \<in> set ls"
  shows "usable l \<noteq> None \<longrightarrow> usableWhileRevalidate l = None"
proof (cases "rs = [] \<or> closed c")
  case True
  then show ?thesis
    using assms by (auto simp: Cache_getMany_def noEntries_def split: if_splits)
next
  case False
  then obtain ces where
    ls: "ls = map (\<lambda>(req, i). processCacheEntries (ces ! i) (req_directives req) now)
                (zip rs [0..<length rs])"
    using assms(1)
    by (auto simp: Cache_getMany_def Let_def split: sum.splits if_splits)
  then show ?thesis
    using assms(2) processCacheEntries_exclusive by auto
qed

lemma lookups_exclusive:
  assumes "catchReadFailure options (map (\<lambda>_. noEntries) xs) (snd (Cache_getMany c now rs))
             = Inr ls"
    and "l \<in> set ls"
  shows "usable l \<noteq> None \<longrightarrow> usableWhileRevalidate l = None"
proof (cases "snd (Cache_getMany c now rs)")
  case (Inl e)
  then have "ls = map (\<lambda>_. noEntries) xs"
    using assms(1)
    by (simp add: catchReadFailure_def split: OnCacheReadFailure.splits)
  then show ?thesis using assms(2) by (auto simp: noEntries_def)
next
  case (Inr res)
  then have "ls = res" using assms(1) by (simp add: catchReadFailure_def)
  then show ?thesis using Cache_getMany_exclusive [OF Inr] assms(2) by simp
qed

lemma wrappedBulkProducer_returns:
  fixes reqs :: "partial_request list"
  defines "fs \<equiv> map completeRequest reqs"
  assumes ne: "reqs \<noteq> []"
    and L: "batch_call
              (\<lambda>batch. catchReadFailure options (map (\<lambda>_. noEntries) batch)
                          (snd (Cache_getMany cache now batch)))
              (filter (\<lambda>r. isCacheable options (req_id r) (req_params r)) fs) = Inr lookups"
    and P: "batch_call collapsed
              (map (\<lambda>(i, l). fs ! i) (needing_producer options fs lookups)) = Inr prodRes"
    and U: "batch_call producer
              (filter (\<lambda>r. \<not> isCacheable options (req_id r) (req_params r)) fs) = Inr uncRes"
    and lenP: "length prodRes \<le> length (needing_producer options fs lookups)"
    and lenU: "length uncRes \<le> length (uncacheable_indices options fs)"
  shows "\<exists>out. snd (wrappedBulkProducer cache options producer collapsed now producedAt reqs)
                 = Inr out
           \<and> length out = length reqs
           \<and> (\<forall>i < length reqs.
                 out ! i = bulk_outcome cache options producedAt fs lookups prodRes uncRes i)"
proof -
  define cidx where "cidx = cacheable_indices options fs"
  define nidx where "nidx = uncacheable_indices options fs"
  define cps where "cps = lookups_by_index options fs lookups"
  define nps where "nps = needing_producer options fs lookups"
  define obj where "obj = (\<lambda>i. (i, fs ! i))"
  define G where "G = (\<lambda>(i, l :: CacheLookupResult). ((i, fs ! i), l))"
  define nv where "nv = normalizeVary (normalizeParamName cache) (normalizeParamValue cache)"
  have cps: "cps = zip cidx lookups" by (simp add: cps_def cidx_def lookups_by_index_def)
  have nps: "nps = filter (\<lambda>(i, l). usable l = None \<and> usableWhileRevalidate l = None) cps"
    by (simp add: nps_def cps_def needing_producer_def)
  have fc: "filter (isCacheableRequest options) (finalRequests reqs) = map obj cidx"
    by (simp add: cacheable_objects cidx_def obj_def fs_def)
  have fn: "filter (Not \<circ> isCacheableRequest options) (finalRequests reqs) = map obj nidx"
    by (simp add: uncacheable_objects nidx_def obj_def fs_def)
  have cb: "map snd (map obj cidx)
              = filter (\<lambda>r. isCacheable options (req_id r) (req_params r)) fs"
    unfolding obj_def cidx_def by (rule cacheable_batch)
  have ub: "map snd (map obj nidx)
              = filter (\<lambda>r. \<not> isCacheable options (req_id r) (req_params r)) fs"
    unfolding obj_def nidx_def by (rule uncacheable_batch)
  have cne: "(map obj cidx = []) = (filter (\<lambda>r. isCacheable options (req_id r) (req_params r)) fs = [])"
    using cb by (metis map_is_Nil_conv)
  have une: "(map obj nidx = []) = (filter (\<lambda>r. \<not> isCacheable options (req_id r) (req_params r)) fs = [])"
    using ub by (metis map_is_Nil_conv)
  have fb: "map (\<lambda>_. noEntries) (map obj cidx)
              = map (\<lambda>_. noEntries) (filter (\<lambda>r. isCacheable options (req_id r) (req_params r)) fs)"
    unfolding cb [symmetric] by simp
  have L': "(if 0 < length (map obj cidx)
             then catchReadFailure options (map (\<lambda>_. noEntries) (map obj cidx))
                    (snd (Cache_getMany cache now (map snd (map obj cidx))))
             else Inr []) = Inr lookups"
    using L unfolding batch_call_def fb cb length_greater_0_conv cne by (simp split: if_splits)
  have U': "(if 0 < length (map obj nidx) then producer (map snd (map obj nidx)) else Inr [])
              = Inr uncRes"
    using U unfolding batch_call_def ub length_greater_0_conv une by (simp split: if_splits)
  have rw: "zip (map obj cidx) lookups = map G cps"
    unfolding obj_def G_def cps by (rule zip_objects)
  have need: "requestsNeedingProducerNow (map G cps) = map G nps"
    unfolding G_def nps by (rule needing_objects)
  have nb: "map (\<lambda>(req, res). snd req) (map G nps) = map (\<lambda>(i, l). fs ! i) nps"
    by (simp add: G_def comp_def case_prod_beta)
  have P': "(if 0 < length (map G nps)
             then collapsed (map (\<lambda>(req, res). snd req) (map G nps)) else Inr [])
              = Inr prodRes"
    using P unfolding batch_call_def nb nps_def [symmetric] by (simp split: if_splits)
  from producerPart_keyed [of prodRes nps cache producedAt fs] lenP
  obtain fromProducer where
    fp: "producerPart nv producedAt (map G nps) prodRes = Inr fromProducer"
    and kfp: "map (\<lambda>(req, res). (fst req, res)) fromProducer
               = map (\<lambda>((k, l), p).
                        (k, recovered l (normalized_outcome cache producedAt (fs ! k) p)))
                   (zip nps prodRes)"
    unfolding nv_def G_def nps_def by blast
  from uncacheablePart_keyed [of uncRes nidx cache producedAt fs] lenU
  obtain fromUncacheable where
    fu: "uncacheablePart nv producedAt (map obj nidx) uncRes = Inr fromUncacheable"
    and kfu: "map (\<lambda>(req, res). (fst req, res)) fromUncacheable
               = map (\<lambda>(k, p). (k, normalized_outcome cache producedAt (fs ! k) p))
                   (zip nidx uncRes)"
    unfolding nv_def obj_def nidx_def by blast
  define ps where
    "ps = requestsWithUsableResults (map G cps)
          @ requestsWithUsableWhileRevalidateResults (map G cps)
          @ fromProducer @ fromUncacheable"
  define out where
    "out = assignResults (finalRequestsToOriginalIndices (finalRequests reqs)) (length reqs) ps"
  have len: "length (finalRequests reqs) = length reqs" by (simp add: finalRequests_def)
  have ret: "snd (wrappedBulkProducer cache options producer collapsed now producedAt reqs)
               = Inr out"
  proof -
    have ne': "(length reqs = 0) = False" using ne by simp
    show ?thesis
      unfolding wrappedBulkProducer_def Let_def nv_def [symmetric] out_def ps_def
      by (simp only: ne' if_False partition_filter_conv fc fn prod.case L' U' rw need P' fp fu
            len sum.case snd_conv)
  qed
  have "length out = length reqs" unfolding out_def by (rule assignResults_length)
  moreover have "\<forall>i < length reqs.
                   out ! i = bulk_outcome cache options producedAt fs lookups prodRes uncRes i"
  proof (intro allI impI)
    fix i assume i: "i < length reqs"
    define kA where
      "kA = map (\<lambda>(k, l). (k, Inr (the (usable l)) :: error + entry))
              (filter (\<lambda>(k, l). usable l \<noteq> None) cps)"
    define kB where
      "kB = map (\<lambda>(k, l). (k, Inr (the (usableWhileRevalidate l)) :: error + entry))
              (filter (\<lambda>(k, l). usableWhileRevalidate l \<noteq> None) cps)"
    define kC where
      "kC = map (\<lambda>((k, l), p).
                   (k, recovered l (normalized_outcome cache producedAt (fs ! k) p)))
              (zip nps prodRes)"
    define kD where
      "kD = map (\<lambda>(k, p). (k, normalized_outcome cache producedAt (fs ! k) p))
              (zip nidx uncRes)"
    have keyed: "map (\<lambda>(req, res). (fst req, res)) ps = kA @ kB @ kC @ kD"
      unfolding ps_def kA_def kB_def kC_def kD_def G_def
      by (simp add: keyed_usable keyed_usableWhileRevalidate kfp kfu)
    have dc: "distinct cidx" by (simp add: cidx_def cacheable_indices_def)
    have dn: "distinct nidx" by (simp add: nidx_def uncacheable_indices_def)
    have "map fst cps = take (length lookups) cidx"
      unfolding cps by (rule nth_equalityI) simp_all
    then have dcps: "distinct (map fst cps)" using dc by simp
    have dnps: "distinct (map fst nps)" unfolding nps using dcps by (rule distinct_map_filter)
    have "map fst (zip nidx uncRes) = take (length uncRes) nidx"
      by (rule nth_equalityI) simp_all
    then have dzu: "distinct (map fst (zip nidx uncRes))" using dn by simp
    have dA: "distinct (map fst kA)" unfolding kA_def using dcps by (rule distinct_keyed_filter)
    have dB: "distinct (map fst kB)" unfolding kB_def using dcps by (rule distinct_keyed_filter)
    have dC: "distinct (map fst kC)" unfolding kC_def using dnps by (rule distinct_keyed_zip)
    have dD: "distinct (map fst kD)"
    proof -
      have "fst \<circ> (\<lambda>(k, p). (k, normalized_outcome cache producedAt (fs ! k) p)) = fst"
        by (auto simp: fun_eq_iff)
      then show ?thesis unfolding kD_def using dzu by simp
    qed
    have mA: "map_of kA i = (case map_of cps i of
                               Some l \<Rightarrow> if usable l \<noteq> None then Some (Inr (the (usable l)))
                                         else None
                             | None \<Rightarrow> None)"
      unfolding kA_def using dcps by (rule map_of_keyed_filter)
    have mB: "map_of kB i = (case map_of cps i of
                               Some l \<Rightarrow> if usableWhileRevalidate l \<noteq> None
                                         then Some (Inr (the (usableWhileRevalidate l)))
                                         else None
                             | None \<Rightarrow> None)"
      unfolding kB_def using dcps by (rule map_of_keyed_filter)
    have "map_of (map (\<lambda>(k, l). (k, l))
                    (filter (\<lambda>(i, l). usable l = None \<and> usableWhileRevalidate l = None) cps)) i
            = (case map_of cps i of
                 Some l \<Rightarrow> if usable l = None \<and> usableWhileRevalidate l = None
                           then Some l else None
               | None \<Rightarrow> None)"
      using dcps by (rule map_of_keyed_filter)
    then have mN: "map_of nps i
            = (case map_of cps i of
                 Some l \<Rightarrow> if usable l = None \<and> usableWhileRevalidate l = None
                           then Some l else None
               | None \<Rightarrow> None)"
      unfolding nps by simp
    have mC: "map_of kC i
            = (case map_of nps i of
                 None \<Rightarrow> None
               | Some l \<Rightarrow>
                   map_option (\<lambda>p. recovered l (normalized_outcome cache producedAt (fs ! i) p))
                     (map_of (zip (map fst nps) prodRes) i))"
      unfolding kC_def using dnps by (rule map_of_keyed_zip)
    have mD: "map_of kD i
            = map_option (normalized_outcome cache producedAt (fs ! i))
                (map_of (zip nidx uncRes) i)"
      unfolding kD_def by (rule map_of_keyed_map)
    have oi: "out ! i = map_of (rev (kA @ kB @ kC @ kD)) i"
      unfolding out_def keyed [symmetric] using i by (rule assignResults_nth)
    have comb: "map_of (rev (kA @ kB @ kC @ kD)) i
            = (case map_of kD i of
                 Some r \<Rightarrow> Some r
               | None \<Rightarrow>
                   (case map_of kC i of
                      Some r \<Rightarrow> Some r
                    | None \<Rightarrow>
                        (case map_of kB i of Some r \<Rightarrow> Some r | None \<Rightarrow> map_of kA i)))"
      by (simp add: map_add_def map_of_rev_distinct [OF dA] map_of_rev_distinct [OF dB]
            map_of_rev_distinct [OF dC] map_of_rev_distinct [OF dD] split: option.splits)
    have ifs: "i < length fs" using i by (simp add: fs_def)
    have inC: "i \<in> set cidx \<longleftrightarrow> isCacheable options (req_id (fs ! i)) (req_params (fs ! i))"
      using ifs by (simp add: cidx_def cacheable_indices_def)
    have inN: "i \<in> set nidx \<longleftrightarrow> \<not> isCacheable options (req_id (fs ! i)) (req_params (fs ! i))"
      using ifs by (simp add: nidx_def uncacheable_indices_def)
    show "out ! i = bulk_outcome cache options producedAt fs lookups prodRes uncRes i"
    proof (cases "isCacheable options (req_id (fs ! i)) (req_params (fs ! i))")
      case False
      then have "i \<notin> set cidx" using inC by simp
      then have "map_of cps i = None"
        unfolding cps by (auto simp: map_of_eq_None_iff dest: set_zip_leftD)
      then show ?thesis
        unfolding oi comb mA mB mC mD mN bulk_outcome_def using False
        by (simp add: nidx_def split: option.splits)
    next
      case True
      then have "i \<notin> set nidx" using inN by simp
      then have zu: "map_of (zip nidx uncRes) i = None"
        by (auto simp: map_of_eq_None_iff dest: set_zip_leftD)
      show ?thesis
      proof (cases "map_of cps i")
        case None
        then show ?thesis
          unfolding oi comb mA mB mC mD mN bulk_outcome_def zu using True
          by (simp add: cps_def)
      next
        case (Some l)
        then have lin: "l \<in> set lookups"
          unfolding cps by (auto dest!: map_of_SomeD set_zip_rightD)
        have "filter (\<lambda>r. isCacheable options (req_id r) (req_params r)) fs \<noteq> []"
          using True ifs by (auto simp: filter_empty_conv)
        then have cr: "catchReadFailure options
                         (map (\<lambda>_. noEntries)
                            (filter (\<lambda>r. isCacheable options (req_id r) (req_params r)) fs))
                         (snd (Cache_getMany cache now
                                 (filter (\<lambda>r. isCacheable options (req_id r) (req_params r))
                                    fs)))
                       = Inr lookups"
          using L by (simp add: batch_call_def)
        have ex: "usable l \<noteq> None \<longrightarrow> usableWhileRevalidate l = None"
          by (rule lookups_exclusive [OF cr lin])
        have c: "map_of (lookups_by_index options fs lookups) i = Some l"
          using Some by (simp add: cps_def)
        show ?thesis
          unfolding oi comb mA mB mC mD mN bulk_outcome_def zu c Some using True ex
          by (auto simp: nps_def split: option.splits)
      qed
    qed
  qed
  ultimately show ?thesis using ret by blast
qed

lemma assignResults_length_any: "length (assignResults m n ps) = n"
proof -
  have "length (foldl (\<lambda>results (req, res).
                         case m (fst req) of
                           Some i \<Rightarrow> results[i := Some res]
                         | None \<Rightarrow> results) acc ps) = length acc" for acc
    by (induction ps arbitrary: acc) (auto split: option.splits)
  then show ?thesis by (simp add: assignResults_def)
qed

lemma wrappedBulkProducer_length:
  assumes "snd (wrappedBulkProducer cache options producer collapsed now producedAt reqs)
             = Inr out"
  shows "length out = length reqs"
proof (cases "reqs = []")
  case True
  then show ?thesis using assms by (simp add: wrappedBulkProducer_def)
next
  case False
  have "length (finalRequests reqs) = length reqs" by (simp add: finalRequests_def)
  then show ?thesis
    using assms False
    by (auto simp: wrappedBulkProducer_def Let_def assignResults_length_any
          simp del: length_greater_0_conv split: sum.splits prod.splits)
qed

lemma Cache_getMany_length:
  assumes "snd (Cache_getMany c now rs) = Inr ls"
  shows "length ls = length rs"
  using assms
  by (auto simp: Cache_getMany_def Let_def split: if_splits sum.splits)

lemma lookups_length:
  assumes "batch_call
             (\<lambda>batch. catchReadFailure options (map (\<lambda>_. noEntries) batch)
                         (snd (Cache_getMany cache now batch))) batch = Inr lookups"
  shows "length lookups = length batch"
proof (cases "batch = []")
  case True
  then show ?thesis using assms by (simp add: batch_call_def)
next
  case False
  then have c: "catchReadFailure options (map (\<lambda>_. noEntries) batch)
                  (snd (Cache_getMany cache now batch)) = Inr lookups"
    using assms by (simp add: batch_call_def)
  show ?thesis
  proof (cases "snd (Cache_getMany cache now batch)")
    case (Inl e)
    then show ?thesis
      using c by (auto simp: catchReadFailure_def split: OnCacheReadFailure.splits)
  next
    case (Inr res)
    then show ?thesis using c Cache_getMany_length [OF Inr] by (simp add: catchReadFailure_def)
  qed
qed

lemma map_of_zip_defined:
  "length ys = length xs \<Longrightarrow> i \<in> set xs \<Longrightarrow> map_of (zip xs ys) i \<noteq> None"
proof -
  assume l: "length ys = length xs" and i: "i \<in> set xs"
  have "map fst (zip xs ys) = xs" using l by simp
  then have "fst ` set (zip xs ys) = set xs" by (metis set_map)
  then show ?thesis using i by (simp add: map_of_eq_None_iff)
qed

lemma bulk_outcome_defined:
  assumes i: "i < length fs"
    and ll: "length lookups = length (cacheable_indices options fs)"
    and lp: "length prodRes = length (needing_producer options fs lookups)"
    and lu: "length uncRes = length (uncacheable_indices options fs)"
  shows "bulk_outcome cache options producedAt fs lookups prodRes uncRes i \<noteq> None"
proof (cases "isCacheable options (req_id (fs ! i)) (req_params (fs ! i))")
  case False
  then have "i \<in> set (uncacheable_indices options fs)"
    using i by (simp add: uncacheable_indices_def)
  then have "map_of (zip (uncacheable_indices options fs) uncRes) i \<noteq> None"
    using lu by (rule map_of_zip_defined [rotated])
  then show ?thesis using False by (simp add: bulk_outcome_def)
next
  case True
  then have "i \<in> set (cacheable_indices options fs)"
    using i by (simp add: cacheable_indices_def)
  then have "map_of (zip (cacheable_indices options fs) lookups) i \<noteq> None"
    using ll by (rule map_of_zip_defined [rotated])
  then obtain l where l: "map_of (lookups_by_index options fs lookups) i = Some l"
    by (auto simp: lookups_by_index_def)
  show ?thesis
  proof (cases "usable l = None \<and> usableWhileRevalidate l = None")
    case False
    then show ?thesis using True l by (auto simp: bulk_outcome_def split: option.splits)
  next
    case n: True
    have "(i, l) \<in> set (lookups_by_index options fs lookups)"
      using l by (rule map_of_SomeD)
    then have "(i, l) \<in> set (needing_producer options fs lookups)"
      using n by (simp add: needing_producer_def)
    then have "i \<in> set (map fst (needing_producer options fs lookups))" by force
    then have "map_of (zip (map fst (needing_producer options fs lookups)) prodRes) i \<noteq> None"
      using lp by (intro map_of_zip_defined) simp_all
    then show ?thesis using True l n by (auto simp: bulk_outcome_def)
  qed
qed

lemma cacheable_indices_length:
  "length (cacheable_indices options fs)
     = length (filter (\<lambda>r. isCacheable options (req_id r) (req_params r)) fs)"
  using arg_cong [OF cacheable_batch [of fs options], of length] by simp

lemma uncacheable_indices_length:
  "length (uncacheable_indices options fs)
     = length (filter (\<lambda>r. \<not> isCacheable options (req_id r) (req_params r)) fs)"
  using arg_cong [OF uncacheable_batch [of fs options], of length] by simp

lemma wrappedProducer_needing_producer:
  assumes "isCacheable options (pq_id req) (req_params (completeRequest req))"
    and "catchReadFailure options noEntries (snd (Cache_get cache now (completeRequest req)))
           = Inr l"
    and "usable l = None" and "usableWhileRevalidate l = None"
  shows "snd (wrappedProducer cache options producer collapsed now producedAt req)
           = recovered l
               (normalized_outcome cache producedAt (completeRequest req)
                  (collapsed (completeRequest req)))"
proof -
  have "req_id (completeRequest req) = pq_id req" by (simp add: completeRequest_def)
  then show ?thesis
    using assms
    by (simp add: wrappedProducer_def Let_def recovered_def normalized_outcome_def
          split: sum.splits option.splits)
qed

text \<open>
  C4: when the lookup gives neither a \<open>usable\<close> nor a \<open>usableWhileRevalidate\<close> entry, a failed
  producer call is recovered exactly when the lookup gave a \<open>usableIfError\<close> entry, which is
  then returned; otherwise the producer's error is surfaced: \<open>wrapProducer\<close> rejects with
  it, \<open>wrapBulkProducer\<close> puts it at the request's position in the output. A successful
  producer call gives the fresh, normalized result, not the \<open>usableIfError\<close> entry.
\<close>

theorem producer_failure_recovery:
  "(isCacheable options (pq_id req) (req_params (completeRequest req))
      \<and> catchReadFailure options noEntries (snd (Cache_get cache now (completeRequest req)))
          = Inr l
      \<and> usable l = None \<and> usableWhileRevalidate l = None
    \<longrightarrow> snd (wrappedProducer cache options single_producer single_collapsed now producedAt req)
          = (case single_collapsed (completeRequest req) of
               Inl err \<Rightarrow> (case usableIfError l of Some uie \<Rightarrow> Inr uie | None \<Rightarrow> Inl err)
             | Inr fresh \<Rightarrow>
                 Inr (primaryNormalizedResultResourceFromRequestPairedProducerResult
                        (normalizeVary (normalizeParamName cache) (normalizeParamValue cache))
                        fresh (pq_id req) producedAt)))
   \<and> (reqs \<noteq> []
      \<and> batch_call
           (\<lambda>batch. catchReadFailure options (map (\<lambda>_. noEntries) batch)
                       (snd (Cache_getMany cache now batch)))
           (filter (\<lambda>r. isCacheable options (req_id r) (req_params r))
              (map completeRequest reqs)) = Inr lookups
      \<and> batch_call collapsed
           (map (\<lambda>(i, l). map completeRequest reqs ! i)
              (needing_producer options (map completeRequest reqs) lookups)) = Inr prodRes
      \<and> batch_call producer
           (filter (\<lambda>r. \<not> isCacheable options (req_id r) (req_params r))
              (map completeRequest reqs)) = Inr uncRes
      \<and> length prodRes = length (needing_producer options (map completeRequest reqs) lookups)
      \<and> length uncRes = length (uncacheable_indices options (map completeRequest reqs))
      \<and> i < length reqs
      \<and> isCacheable options (pq_id (reqs ! i)) (req_params (completeRequest (reqs ! i)))
      \<and> map_of (lookups_by_index options (map completeRequest reqs) lookups) i = Some k
      \<and> usable k = None \<and> usableWhileRevalidate k = None
      \<and> map_of (zip (map fst (needing_producer options (map completeRequest reqs) lookups))
                  prodRes) i = Some p
    \<longrightarrow> (\<exists>out. snd (wrappedBulkProducer cache options producer collapsed now producedAt reqs)
                 = Inr out
             \<and> out ! i
                 = Some (case p of
                           Inl err \<Rightarrow>
                             (case usableIfError k of Some uie \<Rightarrow> Inr uie | None \<Rightarrow> Inl err)
                         | Inr fresh \<Rightarrow>
                             Inr (primaryNormalizedResultResourceFromRequestPairedProducerResult
                                    (normalizeVary (normalizeParamName cache)
                                       (normalizeParamValue cache))
                                    fresh (pq_id (reqs ! i)) producedAt))))"
proof (intro conjI impI)
  assume h: "isCacheable options (pq_id req) (req_params (completeRequest req))
      \<and> catchReadFailure options noEntries (snd (Cache_get cache now (completeRequest req)))
          = Inr l
      \<and> usable l = None \<and> usableWhileRevalidate l = None"
  have "req_id (completeRequest req) = pq_id req" by (simp add: completeRequest_def)
  then show "snd (wrappedProducer cache options single_producer single_collapsed now producedAt req)
          = (case single_collapsed (completeRequest req) of
               Inl err \<Rightarrow> (case usableIfError l of Some uie \<Rightarrow> Inr uie | None \<Rightarrow> Inl err)
             | Inr fresh \<Rightarrow>
                 Inr (primaryNormalizedResultResourceFromRequestPairedProducerResult
                        (normalizeVary (normalizeParamName cache) (normalizeParamValue cache))
                        fresh (pq_id req) producedAt))"
    using h wrappedProducer_needing_producer [of options req cache now l single_producer single_collapsed
        producedAt]
    by (simp add: recovered_def normalized_outcome_def split: sum.splits)
next
  let ?fs = "map completeRequest reqs"
  assume h: "reqs \<noteq> []
      \<and> batch_call
           (\<lambda>batch. catchReadFailure options (map (\<lambda>_. noEntries) batch)
                       (snd (Cache_getMany cache now batch)))
           (filter (\<lambda>r. isCacheable options (req_id r) (req_params r)) ?fs) = Inr lookups
      \<and> batch_call collapsed
           (map (\<lambda>(i, l). ?fs ! i) (needing_producer options ?fs lookups)) = Inr prodRes
      \<and> batch_call producer
           (filter (\<lambda>r. \<not> isCacheable options (req_id r) (req_params r)) ?fs) = Inr uncRes
      \<and> length prodRes = length (needing_producer options ?fs lookups)
      \<and> length uncRes = length (uncacheable_indices options ?fs)
      \<and> i < length reqs
      \<and> isCacheable options (pq_id (reqs ! i)) (req_params (completeRequest (reqs ! i)))
      \<and> map_of (lookups_by_index options ?fs lookups) i = Some k
      \<and> usable k = None \<and> usableWhileRevalidate k = None
      \<and> map_of (zip (map fst (needing_producer options ?fs lookups)) prodRes) i = Some p"
  then have i: "i < length reqs" by simp
  from h wrappedBulkProducer_returns [of reqs options cache now lookups collapsed prodRes
      producer uncRes producedAt]
  obtain out where
    ret: "snd (wrappedBulkProducer cache options producer collapsed now producedAt reqs)
            = Inr out"
    and at: "\<forall>i < length reqs.
               out ! i = bulk_outcome cache options producedAt ?fs lookups prodRes uncRes i"
    by auto
  have id: "req_id (?fs ! i) = pq_id (reqs ! i)" using i by (simp add: completeRequest_def)
  have "out ! i = bulk_outcome cache options producedAt ?fs lookups prodRes uncRes i"
    using at i by blast
  also have "\<dots> = Some (recovered k (normalized_outcome cache producedAt (?fs ! i) p))"
    using h i id by (simp add: bulk_outcome_def)
  finally show "\<exists>out. snd (wrappedBulkProducer cache options producer collapsed now
                             producedAt reqs) = Inr out
             \<and> out ! i
                 = Some (case p of
                           Inl err \<Rightarrow>
                             (case usableIfError k of Some uie \<Rightarrow> Inr uie | None \<Rightarrow> Inl err)
                         | Inr fresh \<Rightarrow>
                             Inr (primaryNormalizedResultResourceFromRequestPairedProducerResult
                                    (normalizeVary (normalizeParamName cache)
                                       (normalizeParamValue cache))
                                    fresh (pq_id (reqs ! i)) producedAt))"
    using ret id by (auto simp: recovered_def normalized_outcome_def split: sum.splits)
qed


theorem producer_failure_recovery_witness:
  "snd (wrappedProducer
          \<lparr>dataStore =
         \<lparr>store_get = (\<lambda>i p. Inr (if i = ''a'' then [\<lparr>entry_id = ''a'', vary = [], content = ''stale'', initialAge = 0, date = 0,
       directives = \<lparr>freshUntilAge = Num 10,
                      maxStale = Some \<lparr>withoutRevalidation = Num 0, whileRevalidate = Num 0,
                                       ifError = Num 60\<rparr>,
                      storeFor = None\<rparr>,
       validators = []\<rparr>] else [])),
          store_getMany = (\<lambda>rs. Inr (map (\<lambda>(i, p). if i = ''a'' then [\<lparr>entry_id = ''a'', vary = [], content = ''stale'', initialAge = 0, date = 0,
       directives = \<lparr>freshUntilAge = Num 10,
                      maxStale = Some \<lparr>withoutRevalidation = Num 0, whileRevalidate = Num 0,
                                       ifError = Num 60\<rparr>,
                      storeFor = None\<rparr>,
       validators = []\<rparr>] else []) rs)),
          store_store = (\<lambda>es. Inr ())\<rparr>,
       closed = False, onGetAfterClose = Throw, onStoreAfterClose = Throw,
       normalizeParamName = (\<lambda>k. k), normalizeParamValue = (\<lambda>k v. v)\<rparr>
          \<lparr>isCacheable = (\<lambda>i p. i \<noteq> ''post''), onCacheReadFailure = CallProducer\<rparr>
          (\<lambda>r. Inl (ProducerError ''down'')) (\<lambda>r. Inl (ProducerError ''down'')) 30000 30001
          \<lparr>pq_id = ''a'', pq_params = None, pq_directives = None\<rparr>)
     = Inr \<lparr>entry_id = ''a'', vary = [], content = ''stale'', initialAge = 0, date = 0,
       directives = \<lparr>freshUntilAge = Num 10,
                      maxStale = Some \<lparr>withoutRevalidation = Num 0, whileRevalidate = Num 0,
                                       ifError = Num 60\<rparr>,
                      storeFor = None\<rparr>,
       validators = []\<rparr>
   \<and> (\<exists>out. snd (wrappedBulkProducer
          \<lparr>dataStore =
         \<lparr>store_get = (\<lambda>i p. Inr (if i = ''a'' then [\<lparr>entry_id = ''a'', vary = [], content = ''stale'', initialAge = 0, date = 0,
       directives = \<lparr>freshUntilAge = Num 10,
                      maxStale = Some \<lparr>withoutRevalidation = Num 0, whileRevalidate = Num 0,
                                       ifError = Num 60\<rparr>,
                      storeFor = None\<rparr>,
       validators = []\<rparr>] else [])),
          store_getMany = (\<lambda>rs. Inr (map (\<lambda>(i, p). if i = ''a'' then [\<lparr>entry_id = ''a'', vary = [], content = ''stale'', initialAge = 0, date = 0,
       directives = \<lparr>freshUntilAge = Num 10,
                      maxStale = Some \<lparr>withoutRevalidation = Num 0, whileRevalidate = Num 0,
                                       ifError = Num 60\<rparr>,
                      storeFor = None\<rparr>,
       validators = []\<rparr>] else []) rs)),
          store_store = (\<lambda>es. Inr ())\<rparr>,
       closed = False, onGetAfterClose = Throw, onStoreAfterClose = Throw,
       normalizeParamName = (\<lambda>k. k), normalizeParamValue = (\<lambda>k v. v)\<rparr>
          \<lparr>isCacheable = (\<lambda>i p. i \<noteq> ''post''), onCacheReadFailure = CallProducer\<rparr>
          (\<lambda>rs. Inr (map (\<lambda>r. Inl (ProducerError ''down'')) rs)) (\<lambda>rs. Inr (map (\<lambda>r. Inl (ProducerError ''down'')) rs)) 30000 30001
          [\<lparr>pq_id = ''a'', pq_params = None, pq_directives = None\<rparr>])
        = Inr out
      \<and> out ! 0 = Some (Inr \<lparr>entry_id = ''a'', vary = [], content = ''stale'', initialAge = 0, date = 0,
       directives = \<lparr>freshUntilAge = Num 10,
                      maxStale = Some \<lparr>withoutRevalidation = Num 0, whileRevalidate = Num 0,
                                       ifError = Num 60\<rparr>,
                      storeFor = None\<rparr>,
       validators = []\<rparr>))"
proof -
  let ?e = "\<lparr>entry_id = ''a'', vary = [], content = ''stale'', initialAge = 0, date = 0,
       directives = \<lparr>freshUntilAge = Num 10,
                      maxStale = Some \<lparr>withoutRevalidation = Num 0, whileRevalidate = Num 0,
                                       ifError = Num 60\<rparr>,
                      storeFor = None\<rparr>,
       validators = []\<rparr>"
  let ?c = "\<lparr>dataStore =
         \<lparr>store_get = (\<lambda>i p. Inr (if i = ''a'' then [?e] else [])),
          store_getMany = (\<lambda>rs. Inr (map (\<lambda>(i, p). if i = ''a'' then [?e] else []) rs)),
          store_store = (\<lambda>es. Inr ())\<rparr>,
       closed = False, onGetAfterClose = Throw, onStoreAfterClose = Throw,
       normalizeParamName = (\<lambda>k. k), normalizeParamValue = (\<lambda>k v. v)\<rparr>"
  let ?o = "\<lparr>isCacheable = (\<lambda>i p. i \<noteq> ''post''), onCacheReadFailure = CallProducer\<rparr>"
  let ?ra = "\<lparr>pq_id = ''a'', pq_params = None, pq_directives = None\<rparr>"
  let ?d = "\<lparr>maxAge = None, c_maxStale = None\<rparr>"
  let ?fa = "\<lparr>req_id = ''a'', req_params = [], req_directives = ?d\<rparr>"
  let ?l = "\<lparr>usable = None, usableWhileRevalidate = None, usableIfError = Some ?e,
             validatable = []\<rparr>"
  let ?f1 = "(\<lambda>r. Inl (ProducerError ''down'')) :: consumer_request \<Rightarrow> error + paired_result"
  let ?fn = "(\<lambda>rs. Inr (map (\<lambda>r. Inl (ProducerError ''down'')) rs)) :: consumer_request list \<Rightarrow> error + (error + paired_result) list"
  have cr: "completeRequest ?ra = ?fa" by (simp add: completeRequest_def)
  have cl: "classify ?e ?d 30000 = UsableIfError"
    by (simp add: classify_def effectiveFreshUntilAge_def finalProducerMaxStale_def
          finalConsumerMaxStale_def age_def birthDate_def newDate_def)
  have pce: "processCacheEntries [?e] ?d 30000 = ?l"
    by (simp add: processCacheEntries_def groupBy_lookup cl bestEntry_def isValidatable_def)
  have get: "snd (Cache_get ?c 30000 ?fa) = Inr ?l"
    by (simp add: Cache_get_def Let_def pce)
  have getMany: "snd (Cache_getMany ?c 30000 [?fa]) = Inr [?l]"
    by (simp add: Cache_getMany_def Let_def pce)
  have ci: "cacheable_indices ?o [?fa] = [0]" by (simp add: cacheable_indices_def)
  have ui: "uncacheable_indices ?o [?fa] = []" by (simp add: uncacheable_indices_def)
  have li: "lookups_by_index ?o [?fa] [?l] = [(0, ?l)]" by (simp add: lookups_by_index_def ci)
  have np: "needing_producer ?o [?fa] [?l] = [(0, ?l)]" by (simp add: needing_producer_def li)
  have s: "snd (wrappedProducer ?c ?o ?f1 ?f1 30000 30001 ?ra) = Inr ?e"
    using producer_failure_recovery
      [where options = ?o and req = ?ra and cache = ?c and now = 30000
        and l = ?l and single_collapsed = ?f1 and single_producer = ?f1 and producedAt = 30001,
        THEN conjunct1]
    by (simp add: cr get catchReadFailure_def)
  have b: "\<exists>out. snd (wrappedBulkProducer ?c ?o ?fn ?fn 30000 30001 [?ra]) = Inr out
             \<and> out ! 0 = Some (Inr ?e)"
    using producer_failure_recovery
      [where options = ?o and reqs = "[?ra]" and cache = ?c and now = 30000
        and lookups = "[?l]" and collapsed = ?fn and producer = ?fn and producedAt = 30001
        and prodRes = "[Inl (ProducerError ''down'')]" and uncRes = "[]" and i = 0
        and k = ?l and p = "Inl (ProducerError ''down'')", THEN conjunct2]
    by (simp add: cr getMany catchReadFailure_def batch_call_def ci ui li np)
  from s b show ?thesis by blast
qed

text \<open>
  C5: the array that \<open>wrapBulkProducer\<close> returns is as long as its input. When the cache
  read, the call through the collapser and the direct producer call resolve with \<open>lookups\<close>,
  \<open>prodRes\<close> and \<open>uncRes\<close>, the producers giving one result per request they were sent, then
  every \<open>output[i]\<close> is set, and it is the outcome computed for \<open>input[i]\<close>: from the request
  itself, from the lookup at its position among the cacheable requests and from the
  producer's result at its position in the batch it was sent in. Requests are told apart
  by their index, so equal requests in the input make no difference.
\<close>

theorem bulk_output_in_input_order:
  "(\<forall>out. snd (wrappedBulkProducer cache options producer collapsed now producedAt reqs)
            = Inr out \<longrightarrow> length out = length reqs)
   \<and> (reqs \<noteq> []
      \<and> batch_call
           (\<lambda>batch. catchReadFailure options (map (\<lambda>_. noEntries) batch)
                       (snd (Cache_getMany cache now batch)))
           (filter (\<lambda>r. isCacheable options (req_id r) (req_params r))
              (map completeRequest reqs)) = Inr lookups
      \<and> batch_call collapsed
           (map (\<lambda>(i, l). map completeRequest reqs ! i)
              (needing_producer options (map completeRequest reqs) lookups)) = Inr prodRes
      \<and> batch_call producer
           (filter (\<lambda>r. \<not> isCacheable options (req_id r) (req_params r))
              (map completeRequest reqs)) = Inr uncRes
      \<and> length prodRes = length (needing_producer options (map completeRequest reqs) lookups)
      \<and> length uncRes = length (uncacheable_indices options (map completeRequest reqs))
    \<longrightarrow> (\<exists>out. snd (wrappedBulkProducer cache options producer collapsed now producedAt reqs)
                 = Inr out
             \<and> (\<forall>i < length reqs.
                   out ! i \<noteq> None
                   \<and> out ! i = bulk_outcome cache options producedAt (map completeRequest reqs)
                                 lookups prodRes uncRes i)))"
proof (intro conjI impI allI)
  fix out
  assume "snd (wrappedBulkProducer cache options producer collapsed now producedAt reqs)
            = Inr out"
  then show "length out = length reqs" by (rule wrappedBulkProducer_length)
next
  let ?fs = "map completeRequest reqs"
  assume h: "reqs \<noteq> []
      \<and> batch_call
           (\<lambda>batch. catchReadFailure options (map (\<lambda>_. noEntries) batch)
                       (snd (Cache_getMany cache now batch)))
           (filter (\<lambda>r. isCacheable options (req_id r) (req_params r)) ?fs) = Inr lookups
      \<and> batch_call collapsed
           (map (\<lambda>(i, l). ?fs ! i) (needing_producer options ?fs lookups)) = Inr prodRes
      \<and> batch_call producer
           (filter (\<lambda>r. \<not> isCacheable options (req_id r) (req_params r)) ?fs) = Inr uncRes
      \<and> length prodRes = length (needing_producer options ?fs lookups)
      \<and> length uncRes = length (uncacheable_indices options ?fs)"
  from h wrappedBulkProducer_returns [of reqs options cache now lookups collapsed prodRes
      producer uncRes producedAt]
  obtain out where
    ret: "snd (wrappedBulkProducer cache options producer collapsed now producedAt reqs)
            = Inr out"
    and at: "\<forall>i < length reqs.
               out ! i = bulk_outcome cache options producedAt ?fs lookups prodRes uncRes i"
    by auto
  have L: "batch_call
           (\<lambda>batch. catchReadFailure options (map (\<lambda>_. noEntries) batch)
                       (snd (Cache_getMany cache now batch)))
           (filter (\<lambda>r. isCacheable options (req_id r) (req_params r)) ?fs) = Inr lookups"
    using h by blast
  have ll: "length lookups = length (cacheable_indices options ?fs)"
    unfolding cacheable_indices_length by (rule lookups_length [OF L])
  have "\<forall>i < length reqs.
          bulk_outcome cache options producedAt ?fs lookups prodRes uncRes i \<noteq> None"
    using bulk_outcome_defined [OF _ ll, of _ prodRes uncRes cache producedAt] h by simp
  with ret at
  show "\<exists>out. snd (wrappedBulkProducer cache options producer collapsed now producedAt reqs)
                 = Inr out
             \<and> (\<forall>i < length reqs.
                   out ! i \<noteq> None
                   \<and> out ! i = bulk_outcome cache options producedAt ?fs lookups prodRes
                                 uncRes i)"
    by auto
qed

theorem bulk_output_in_input_order_witness:
  "\<exists>out. snd (wrappedBulkProducer
          \<lparr>dataStore =
         \<lparr>store_get = (\<lambda>i p. Inr (if i = ''a'' then [\<lparr>entry_id = ''a'', vary = [], content = ''stale'', initialAge = 0, date = 0,
       directives = \<lparr>freshUntilAge = Num 10,
                      maxStale = Some \<lparr>withoutRevalidation = Num 0, whileRevalidate = Num 0,
                                       ifError = Num 60\<rparr>,
                      storeFor = None\<rparr>,
       validators = []\<rparr>] else [])),
          store_getMany = (\<lambda>rs. Inr (map (\<lambda>(i, p). if i = ''a'' then [\<lparr>entry_id = ''a'', vary = [], content = ''stale'', initialAge = 0, date = 0,
       directives = \<lparr>freshUntilAge = Num 10,
                      maxStale = Some \<lparr>withoutRevalidation = Num 0, whileRevalidate = Num 0,
                                       ifError = Num 60\<rparr>,
                      storeFor = None\<rparr>,
       validators = []\<rparr>] else []) rs)),
          store_store = (\<lambda>es. Inr ())\<rparr>,
       closed = False, onGetAfterClose = Throw, onStoreAfterClose = Throw,
       normalizeParamName = (\<lambda>k. k), normalizeParamValue = (\<lambda>k v. v)\<rparr>
          \<lparr>isCacheable = (\<lambda>i p. i \<noteq> ''post''), onCacheReadFailure = CallProducer\<rparr>
          (\<lambda>rs. Inr (map (\<lambda>r. Inr \<lparr>p_id = None, p_vary = None, p_content = ''fresh'', p_initialAge = None, p_date = None,
        p_directives = \<lparr>freshUntilAge = Num 5, maxStale = None, storeFor = None\<rparr>,
        p_validators = None, supplementalResources = None\<rparr>) rs))
          (\<lambda>rs. Inr (map (\<lambda>r. Inl (ProducerError ''down'')) rs)) 30000 30001
          [\<lparr>pq_id = ''post'', pq_params = None, pq_directives = None\<rparr>,
           \<lparr>pq_id = ''a'', pq_params = None, pq_directives = None\<rparr>])
      = Inr out
    \<and> length out = 2
    \<and> out ! 0 = Some (Inr \<lparr>entry_id = ''post'', vary = [], content = ''fresh'', initialAge = 0, date = 30001,
       directives = \<lparr>freshUntilAge = Num 5, maxStale = None, storeFor = None\<rparr>,
       validators = []\<rparr>)
    \<and> out ! 1 = Some (Inr \<lparr>entry_id = ''a'', vary = [], content = ''stale'', initialAge = 0, date = 0,
       directives = \<lparr>freshUntilAge = Num 10,
                      maxStale = Some \<lparr>withoutRevalidation = Num 0, whileRevalidate = Num 0,
                                       ifError = Num 60\<rparr>,
                      storeFor = None\<rparr>,
       validators = []\<rparr>)"
proof -
  let ?e = "\<lparr>entry_id = ''a'', vary = [], content = ''stale'', initialAge = 0, date = 0,
       directives = \<lparr>freshUntilAge = Num 10,
                      maxStale = Some \<lparr>withoutRevalidation = Num 0, whileRevalidate = Num 0,
                                       ifError = Num 60\<rparr>,
                      storeFor = None\<rparr>,
       validators = []\<rparr>"
  let ?ep = "\<lparr>entry_id = ''post'', vary = [], content = ''fresh'', initialAge = 0, date = 30001,
       directives = \<lparr>freshUntilAge = Num 5, maxStale = None, storeFor = None\<rparr>,
       validators = []\<rparr>"
  let ?pr = "\<lparr>p_id = None, p_vary = None, p_content = ''fresh'', p_initialAge = None, p_date = None,
        p_directives = \<lparr>freshUntilAge = Num 5, maxStale = None, storeFor = None\<rparr>,
        p_validators = None, supplementalResources = None\<rparr>"
  let ?c = "\<lparr>dataStore =
         \<lparr>store_get = (\<lambda>i p. Inr (if i = ''a'' then [?e] else [])),
          store_getMany = (\<lambda>rs. Inr (map (\<lambda>(i, p). if i = ''a'' then [?e] else []) rs)),
          store_store = (\<lambda>es. Inr ())\<rparr>,
       closed = False, onGetAfterClose = Throw, onStoreAfterClose = Throw,
       normalizeParamName = (\<lambda>k. k), normalizeParamValue = (\<lambda>k v. v)\<rparr>"
  let ?o = "\<lparr>isCacheable = (\<lambda>i p. i \<noteq> ''post''), onCacheReadFailure = CallProducer\<rparr>"
  let ?ra = "\<lparr>pq_id = ''a'', pq_params = None, pq_directives = None\<rparr>"
  let ?rp = "\<lparr>pq_id = ''post'', pq_params = None, pq_directives = None\<rparr>"
  let ?d = "\<lparr>maxAge = None, c_maxStale = None\<rparr>"
  let ?fa = "\<lparr>req_id = ''a'', req_params = [], req_directives = ?d\<rparr>"
  let ?fp = "\<lparr>req_id = ''post'', req_params = [], req_directives = ?d\<rparr>"
  let ?l = "\<lparr>usable = None, usableWhileRevalidate = None, usableIfError = Some ?e,
             validatable = []\<rparr>"
  let ?ok = "(\<lambda>rs. Inr (map (\<lambda>r. Inr ?pr) rs)) :: consumer_request list \<Rightarrow> error + (error + paired_result) list"
  let ?fn = "(\<lambda>rs. Inr (map (\<lambda>r. Inl (ProducerError ''down'')) rs)) :: consumer_request list \<Rightarrow> error + (error + paired_result) list"
  let ?reqs = "[?rp, ?ra]"
  have cr: "map completeRequest ?reqs = [?fp, ?fa]" by (simp add: completeRequest_def)
  have cl: "classify ?e ?d 30000 = UsableIfError"
    by (simp add: classify_def effectiveFreshUntilAge_def finalProducerMaxStale_def
          finalConsumerMaxStale_def age_def birthDate_def newDate_def)
  have pce: "processCacheEntries [?e] ?d 30000 = ?l"
    by (simp add: processCacheEntries_def groupBy_lookup cl bestEntry_def isValidatable_def)
  have getMany: "snd (Cache_getMany ?c 30000 [?fa]) = Inr [?l]"
    by (simp add: Cache_getMany_def Let_def pce)
  have ci: "cacheable_indices ?o [?fp, ?fa] = [1]"
    by (simp add: cacheable_indices_def upt_rec [of 0] upt_rec [of 1])
  have ui: "uncacheable_indices ?o [?fp, ?fa] = [0]"
    by (simp add: uncacheable_indices_def upt_rec [of 0] upt_rec [of 1])
  have li: "lookups_by_index ?o [?fp, ?fa] [?l] = [(1, ?l)]"
    by (simp add: lookups_by_index_def ci)
  have np: "needing_producer ?o [?fp, ?fa] [?l] = [(1, ?l)]"
    by (simp add: needing_producer_def li)
  have n: "normalized_outcome ?c 30001 ?fp (Inr ?pr) = Inr ?ep"
    by (simp add: normalized_outcome_def
          primaryNormalizedResultResourceFromRequestPairedProducerResult_def
          normalizeProducerResultResource_def normalizeProducerDirectives_def
          withRequestId_def normalizeVary_def fromEntries_def)
  have o0: "bulk_outcome ?c ?o 30001 [?fp, ?fa] [?l] [Inl (ProducerError ''down'')] [Inr ?pr] 0
              = Some (Inr ?ep)"
    by (simp add: bulk_outcome_def ui n)
  have o1: "bulk_outcome ?c ?o 30001 [?fp, ?fa] [?l] [Inl (ProducerError ''down'')] [Inr ?pr] 1
              = Some (Inr ?e)"
    by (simp add: bulk_outcome_def li np recovered_def normalized_outcome_def)
  from bulk_output_in_input_order
      [where options = ?o and reqs = ?reqs and cache = ?c and now = 30000
        and lookups = "[?l]" and collapsed = ?fn and producer = ?ok and producedAt = 30001
        and prodRes = "[Inl (ProducerError ''down'')]" and uncRes = "[Inr ?pr]"]
  obtain out where
    ret: "snd (wrappedBulkProducer ?c ?o ?ok ?fn 30000 30001 ?reqs) = Inr out"
    and len: "length out = length ?reqs"
    and at: "\<forall>i < length ?reqs.
               out ! i \<noteq> None
               \<and> out ! i = bulk_outcome ?c ?o 30001 (map completeRequest ?reqs) [?l]
                             [Inl (ProducerError ''down'')] [Inr ?pr] i"
    unfolding cr
    by (auto simp: getMany catchReadFailure_def batch_call_def ci ui li np)
  have "out ! 0 = Some (Inr ?ep)" using at [rule_format, of 0] unfolding cr o0 by simp
  moreover have "out ! 1 = Some (Inr ?e)" using at [rule_format, of 1] unfolding cr o1 by simp
  ultimately show ?thesis using ret len by auto
qed

end
